theory Spec2Isabelle
  imports Main "HOL-Library.Word" "HOL-Library.FSet"
begin

unbundle bit_operations_syntax

section \<open>Data model of unbun.py\<close>

text \<open>
  A Python \<open>bytes\<close> object (and a \<open>memoryview\<close> of one) is a list of 8-bit values;
  Python's unbounded integers are \<open>int\<close>; a Python \<open>str\<close> is a list of Unicode code
  points (a \<open>char\<close> of HOL has 8 bits only and cannot hold U+FFFD).
\<close>

type_synonym byte = "8 word"
type_synonym pystr = "nat list"

text \<open>
  The source raises one exception class, \<open>ExtractionError\<close>, told apart by its message.
  Each message is one constructor, named as the specification's error taxonomy names it:
  \<^item> \<open>TrailerNotFound\<close>: "Module graph trailer not found"
  \<^item> \<open>OffsetsOutOfRange\<close>: "Module graph offsets out of range"
  \<^item> \<open>InvalidByteCount\<close>: "Invalid module graph byte count"
  \<^item> \<open>StartBeforeFile\<close>: "Module graph start before file"
  \<^item> \<open>TableOutOfBounds\<close>: "Modules table exceeds module graph bounds"
  \<^item> \<open>PointerOutOfRange\<close>: "Module graph pointer out of range"
  \<^item> \<open>NoEntriesFound\<close>: "No JavaScript bundles found in module graph"

  \<open>IndexError\<close> and \<open>UnicodeDecodeError\<close> are the built-in exceptions of indexing a
  \<open>memoryview\<close> out of range and of strict text decoding; \<open>ValueError\<close> and \<open>OSError\<close>
  are those of the file operations of \<open>extract\<close>.
\<close>

datatype error =
    TrailerNotFound
  | OffsetsOutOfRange
  | InvalidByteCount
  | StartBeforeFile
  | TableOutOfBounds
  | PointerOutOfRange
  | NoEntriesFound
  | IndexError
  | UnicodeDecodeError
  | ValueError
  | OSError

definition TRAILER :: "byte list" where
  "TRAILER = [0x0A, 0x2D, 0x2D, 0x2D, 0x2D, 0x20, 0x42, 0x75, 0x6E, 0x21, 0x20,
              0x2D, 0x2D, 0x2D, 0x2D, 0x0A]"

definition OFFSETS_STRUCT_SIZE :: int where
  "OFFSETS_STRUCT_SIZE = 32"

definition MODULE_STRUCT_SIZE :: int where
  "MODULE_STRUCT_SIZE = 36"

section \<open>Python built-ins used by the source\<close>

text \<open>\<open>xs[i:j]\<close>: a negative index counts from the end, and both ends are clamped.\<close>

definition py_slice :: "'a list \<Rightarrow> int \<Rightarrow> int \<Rightarrow> 'a list" where
  "py_slice xs i j =
     (let n = int (length xs);
          lo = (if i < 0 then max 0 (i + n) else min i n);
          hi = (if j < 0 then max 0 (j + n) else min j n)
      in take (nat (hi - lo)) (drop (nat lo) xs))"

text \<open>\<open>xs[i]\<close> on a sequence: a negative index counts from the end; out of range raises.\<close>

definition py_index :: "'a list \<Rightarrow> int \<Rightarrow> error + 'a" where
  "py_index xs i =
     (let n = int (length xs); k = (if i < 0 then i + n else i)
      in if 0 \<le> k \<and> k < n then Inr (xs ! nat k) else Inl IndexError)"

text \<open>\<open>s.endswith(suffix)\<close>, on bytes and on text.\<close>

definition endswith :: "'a list \<Rightarrow> 'a list \<Rightarrow> bool" where
  "endswith s suffix =
     (length suffix \<le> length s \<and> drop (length s - length suffix) s = suffix)"

text \<open>\<open>int.from_bytes(bs, "little")\<close>: the first byte is the least significant.\<close>

fun from_bytes_little :: "byte list \<Rightarrow> int" where
  "from_bytes_little [] = 0"
| "from_bytes_little (b # bs) = uint b + 256 * from_bytes_little bs"

section \<open>Packed pointers and slice resolution\<close>

text \<open>\<open>decode_pointer\<close> (lines 27-31).\<close>

definition decode_pointer :: "int \<Rightarrow> int \<times> int" where
  "decode_pointer raw =
     (let offset = raw AND 0xFFFFFFFF;
          len = (drop_bit 32 raw) AND 0xFFFFFFFF
      in (offset, len))"

text \<open>
  \<open>slice_from\<close> (lines 34-44), with the accesses to the bytes of \<open>blob\<close> made explicit:
  the first component lists, in order, the slice expressions \<open>blob[a:b]\<close> evaluated on the
  way (line 41 is the only one; \<open>len(blob)\<close> reads no byte), the second is what the
  function returns or raises.
\<close>

definition slice_from_reads :: "byte list \<Rightarrow> int \<times> int \<Rightarrow> (int \<times> int) list \<times> (error + byte list)" where
  "slice_from_reads blob pointer =
     (case pointer of (offset, len) \<Rightarrow>
        if len = 0 then ([], Inr [])
        else
          let endpos = offset + len in
          if offset < 0 \<or> endpos > int (length blob) then ([], Inl PointerOutOfRange)
          else
            let data = py_slice blob offset endpos in
            ([(offset, endpos)],
             Inr (if endswith data [0x00] then py_slice data 0 (-1) else data)))"

definition slice_from :: "byte list \<Rightarrow> int \<times> int \<Rightarrow> error + byte list" where
  "slice_from blob pointer = snd (slice_from_reads blob pointer)"

section \<open>More built-ins: searching and text decoding\<close>

text \<open>
  \<open>s.rfind(sub)\<close>: the highest index at which \<open>sub\<close> occurs in \<open>s\<close>, or \<open>-1\<close>.
  The candidates are tried from the highest start index down to 0.
\<close>

fun rfind_from :: "'a list \<Rightarrow> 'a list \<Rightarrow> nat \<Rightarrow> int" where
  "rfind_from s sub 0 = (if take (length sub) s = sub then 0 else -1)"
| "rfind_from s sub (Suc i) =
     (if take (length sub) (drop (Suc i) s) = sub then int (Suc i) else rfind_from s sub i)"

definition rfind :: "'a list \<Rightarrow> 'a list \<Rightarrow> int" where
  "rfind s sub =
     (if length sub > length s then -1 else rfind_from s sub (length s - length sub))"

text \<open>
  \<open>bs.decode("utf-8", errors=...)\<close>. \<open>utf8_step\<close> reads one unit at the head of a
  non-empty input: a code point with the number of bytes it takes, or \<open>None\<close> with the
  length of the ill-formed part (an invalid start byte; a lead byte with the valid
  continuation bytes that follow it, cut short by another byte or by the end of the data).
  Overlong forms, surrogates and values above U+10FFFF are ill-formed.
\<close>

datatype errors_mode = Strict | Replace

definition is_continuation :: "nat \<Rightarrow> bool" where
  "is_continuation b = (0x80 \<le> b \<and> b < 0xC0)"

fun utf8_step :: "nat list \<Rightarrow> nat option \<times> nat" where
  "utf8_step [] = (None, 0)"
| "utf8_step (b0 # bs) =
     (if b0 < 0x80 then (Some b0, 1)
      else if b0 < 0xC2 then (None, 1)
      else if b0 < 0xE0 then
        (case bs of
           [] \<Rightarrow> (None, 1)
         | b1 # _ \<Rightarrow>
             if is_continuation b1 then (Some ((b0 - 0xC0) * 64 + (b1 - 0x80)), 2)
             else (None, 1))
      else if b0 < 0xF0 then
        (case bs of
           [] \<Rightarrow> (None, 1)
         | b1 # bs1 \<Rightarrow>
             if \<not> is_continuation b1 \<or> (if b1 < 0xA0 then b0 = 0xE0 else b0 = 0xED)
             then (None, 1)
             else
               (case bs1 of
                  [] \<Rightarrow> (None, 2)
                | b2 # _ \<Rightarrow>
                    if is_continuation b2
                    then (Some ((b0 - 0xE0) * 4096 + (b1 - 0x80) * 64 + (b2 - 0x80)), 3)
                    else (None, 2)))
      else if b0 < 0xF5 then
        (case bs of
           [] \<Rightarrow> (None, 1)
         | b1 # bs1 \<Rightarrow>
             if \<not> is_continuation b1 \<or> (if b1 < 0x90 then b0 = 0xF0 else b0 = 0xF4)
             then (None, 1)
             else
               (case bs1 of
                  [] \<Rightarrow> (None, 2)
                | b2 # bs2 \<Rightarrow>
                    if \<not> is_continuation b2 then (None, 2)
                    else
                      (case bs2 of
                         [] \<Rightarrow> (None, 3)
                       | b3 # _ \<Rightarrow>
                           if is_continuation b3
                           then (Some ((b0 - 0xF0) * 262144 + (b1 - 0x80) * 4096
                                       + (b2 - 0x80) * 64 + (b3 - 0x80)), 4)
                           else (None, 3))))
      else (None, 1))"

lemma utf8_step_consumes: "bs \<noteq> [] \<Longrightarrow> 0 < snd (utf8_step bs)"
  by (cases bs) (auto split: list.splits)

text \<open>
  The decoder proper. An ill-formed part raises under \<open>Strict\<close>; under \<open>Replace\<close>
  it becomes one U+FFFD and decoding goes on behind it.
\<close>

function utf8_decode :: "errors_mode \<Rightarrow> nat list \<Rightarrow> error + pystr" where
  "utf8_decode mode bs =
     (if bs = [] then Inr []
      else
        let unit = utf8_step bs in
        (case fst unit of
           None \<Rightarrow>
             (case mode of
                Strict \<Rightarrow> Inl UnicodeDecodeError
              | Replace \<Rightarrow>
                  (case utf8_decode mode (drop (snd unit) bs) of
                     Inl e \<Rightarrow> Inl e
                   | Inr s \<Rightarrow> Inr (0xFFFD # s)))
         | Some cp \<Rightarrow>
             (case utf8_decode mode (drop (snd unit) bs) of
                Inl e \<Rightarrow> Inl e
              | Inr s \<Rightarrow> Inr (cp # s))))"
  by pat_completeness auto

termination
proof (relation "measure (\<lambda>(mode, bs). length bs)")
  show "wf (measure (\<lambda>(mode, bs). length bs))" by simp
next
  fix mode :: errors_mode and bs :: "nat list" and unit :: "nat option \<times> nat"
  assume "bs \<noteq> []" and "unit = utf8_step bs"
  then have "0 < snd unit" by (simp add: utf8_step_consumes)
  with \<open>bs \<noteq> []\<close> show "((mode, drop (snd unit) bs), (mode, bs)) \<in> measure (\<lambda>(mode, bs). length bs)"
    by simp
next
  fix mode :: errors_mode and bs :: "nat list" and unit :: "nat option \<times> nat"
  assume "bs \<noteq> []" and "unit = utf8_step bs"
  then have "0 < snd unit" by (simp add: utf8_step_consumes)
  with \<open>bs \<noteq> []\<close> show "((mode, drop (snd unit) bs), (mode, bs)) \<in> measure (\<lambda>(mode, bs). length bs)"
    by simp
qed

declare utf8_decode.simps [simp del]

text \<open>\<open>bs.decode("utf-8", errors="replace")\<close> on a bytes object.\<close>

definition decode_utf8 :: "errors_mode \<Rightarrow> byte list \<Rightarrow> error + pystr" where
  "decode_utf8 mode bs = utf8_decode mode (map unat bs)"

text \<open>A text literal of the source, as code points.\<close>

definition str_lit :: "string \<Rightarrow> pystr" where
  "str_lit s = map of_char s"

text \<open>
  \<open>s.replace(old, new)\<close>: the occurrences of \<open>old\<close> are replaced from left to right
  and do not overlap; an empty \<open>old\<close> matches before every element and at the end.
\<close>

fun replace_nonempty :: "'a list \<Rightarrow> 'a list \<Rightarrow> 'a list \<Rightarrow> 'a list" where
  "replace_nonempty [] old new = []"
| "replace_nonempty (c # s) old new =
     (if old \<noteq> [] \<and> take (length old) (c # s) = old
      then new @ replace_nonempty (drop (length old) (c # s)) old new
      else c # replace_nonempty s old new)"

definition str_replace :: "'a list \<Rightarrow> 'a list \<Rightarrow> 'a list \<Rightarrow> 'a list" where
  "str_replace s old new =
     (if old = [] then new @ concat (map (\<lambda>c. c # new) s) else replace_nonempty s old new)"

text \<open>\<open>s.strip(chars)\<close>: the leading and the trailing elements that are in \<open>chars\<close> go.\<close>

definition str_strip :: "'a list \<Rightarrow> 'a list \<Rightarrow> 'a list" where
  "str_strip s chars =
     rev (dropWhile (\<lambda>c. c \<in> set chars) (rev (dropWhile (\<lambda>c. c \<in> set chars) s)))"

text \<open>\<open>str(n)\<close> for a non-negative integer: its decimal digits.\<close>

fun str_of_nat :: "nat \<Rightarrow> pystr" where
  "str_of_nat n = (if n < 10 then [48 + n] else str_of_nat (n div 10) @ [48 + n mod 10])"

declare str_of_nat.simps [simp del]

section \<open>The locator: \<open>find_module_graph\<close> (lines 47-66)\<close>

definition find_module_graph :: "byte list \<Rightarrow> error + (byte list \<times> int)" where
  "find_module_graph buffer =
     (let trailer_idx = rfind buffer TRAILER in
      if trailer_idx = -1 then Inl TrailerNotFound
      else
        let offsets_start = trailer_idx - OFFSETS_STRUCT_SIZE in
        if offsets_start < 0 then Inl OffsetsOutOfRange
        else
          let byte_count = from_bytes_little (py_slice buffer offsets_start (offsets_start + 8)) in
          if byte_count \<le> 0 \<or> byte_count > int (length buffer) then Inl InvalidByteCount
          else
            let module_graph_start = offsets_start - byte_count in
            if module_graph_start < 0 then Inl StartBeforeFile
            else
              let graph = py_slice buffer module_graph_start offsets_start;
                  modules_raw =
                    from_bytes_little (py_slice buffer (offsets_start + 8) (offsets_start + 16))
              in Inr (graph, modules_raw))"

section \<open>The record decoder: \<open>iter_modules\<close> (lines 69-98)\<close>

text \<open>
  What the generator yields: \<open>(name, contents, encoding, loader, module_format, side)\<close>.
\<close>

type_synonym module_entry = "pystr \<times> byte list \<times> int \<times> int \<times> int \<times> int"

text \<open>Sequencing: an exception raised by a statement ends the run of the ones after it.\<close>

definition and_then :: "error + 'a \<Rightarrow> ('a \<Rightarrow> error + 'b) \<Rightarrow> error + 'b" where
  "and_then r f = (case r of Inl e \<Rightarrow> Inl e | Inr v \<Rightarrow> f v)"

text \<open>The body of the loop (lines 81-98) for one index: the entry it yields, or the exception.\<close>

definition iter_modules_body :: "byte list \<Rightarrow> byte list \<Rightarrow> int \<Rightarrow> error + module_entry" where
  "iter_modules_body graph table idx =
     (let base = idx * MODULE_STRUCT_SIZE;
          name_ptr = (from_bytes_little (py_slice table base (base + 4)),
                      from_bytes_little (py_slice table (base + 4) (base + 8)));
          contents_ptr = (from_bytes_little (py_slice table (base + 8) (base + 12)),
                          from_bytes_little (py_slice table (base + 12) (base + 16)));
          sourcemap_ptr = (from_bytes_little (py_slice table (base + 16) (base + 20)),
                           from_bytes_little (py_slice table (base + 20) (base + 24)));
          bytecode_ptr = (from_bytes_little (py_slice table (base + 24) (base + 28)),
                          from_bytes_little (py_slice table (base + 28) (base + 32)))
      in
      and_then (py_index table (base + 32)) (\<lambda>encoding.
      and_then (py_index table (base + 33)) (\<lambda>loader.
      and_then (py_index table (base + 34)) (\<lambda>module_format.
      and_then (py_index table (base + 35)) (\<lambda>side.
      and_then (slice_from graph name_ptr) (\<lambda>name_bytes.
      and_then (decode_utf8 Replace name_bytes) (\<lambda>name.
      and_then (slice_from graph contents_ptr) (\<lambda>contents.
        Inr (name, contents, uint encoding, uint loader, uint module_format, uint side)
      ))))))))"

text \<open>
  The loop over \<open>range(count)\<close>. A generator hands its entries to the consumer one by one,
  so what it does is the list of entries yielded, in order, and the exception that ended
  it, if one did: the entries before a failing record have been yielded.
\<close>

fun iter_modules_loop :: "byte list \<Rightarrow> byte list \<Rightarrow> int list \<Rightarrow> module_entry list \<times> error option" where
  "iter_modules_loop graph table [] = ([], None)"
| "iter_modules_loop graph table (idx # rest) =
     (case iter_modules_body graph table idx of
        Inl e \<Rightarrow> ([], Some e)
      | Inr entry \<Rightarrow>
          (case iter_modules_loop graph table rest of (ys, r) \<Rightarrow> (entry # ys, r)))"

definition iter_modules :: "byte list \<Rightarrow> int \<Rightarrow> module_entry list \<times> error option" where
  "iter_modules graph modules_raw =
     (case decode_pointer modules_raw of (modules_offset, modules_length) \<Rightarrow>
        if modules_length = 0 \<or> modules_length mod MODULE_STRUCT_SIZE \<noteq> 0 then ([], None)
        else if modules_offset + modules_length > int (length graph)
        then ([], Some TableOutOfBounds)
        else
          let count = modules_length div MODULE_STRUCT_SIZE;
              table = py_slice graph modules_offset (modules_offset + modules_length)
          in iter_modules_loop graph table (map int [0 ..< nat count]))"

section \<open>The eligibility predicate: \<open>should_extract\<close> (lines 101-110)\<close>

definition JS_EXTENSIONS :: "pystr list" where
  "JS_EXTENSIONS = map str_lit [''.js'', ''.jsx'', ''.ts'', ''.tsx'', ''.mjs'', ''.cjs'']"

definition should_extract :: "pystr \<Rightarrow> int \<Rightarrow> int \<Rightarrow> bool" where
  "should_extract name encoding loader =
     (if encoding = 0 then False
      else if list_ex (endswith name) JS_EXTENSIONS then True
      else (loader = 1 \<or> loader = 2))"

section \<open>The orchestrator: \<open>extract\<close> (lines 128-164)\<close>

text \<open>
  The f-string \<open>f"{base}_{counter}"\<close> of line 151. Reading the decimal digits back gives
  the number, so two counters never give the same name; the loop below ends for that reason.
\<close>

definition numbered :: "pystr \<Rightarrow> nat \<Rightarrow> pystr" where
  "numbered base counter = base @ str_lit ''_'' @ str_of_nat counter"

definition digits_value :: "pystr \<Rightarrow> nat" where
  "digits_value ds = foldl (\<lambda>a d. 10 * a + (d - 48)) 0 ds"

lemma digits_value_str_of_nat: "digits_value (str_of_nat n) = n"
proof (induction n rule: str_of_nat.induct)
  case (1 n)
  show ?case
  proof (cases "n < 10")
    case True
    then show ?thesis by (simp add: str_of_nat.simps [of n] digits_value_def)
  next
    case False
    with 1 have "digits_value (str_of_nat (n div 10)) = n div 10" by simp
    with False show ?thesis
      by (simp add: str_of_nat.simps [of n] digits_value_def)
  qed
qed

lemma inj_str_of_nat: "inj str_of_nat"
  by (rule inj_on_inverseI [where g = digits_value]) (rule digits_value_str_of_nat)

lemma inj_numbered: "inj (numbered base)"
  using inj_str_of_nat by (auto simp: inj_def numbered_def)

lemma finite_numbered: "finite {k. numbered base k |\<in>| written}"
proof -
  have "finite (numbered base -` fset written)"
    by (rule finite_vimageI) (simp_all add: inj_numbered)
  then show ?thesis by (simp add: vimage_def)
qed

text \<open>
  The \<open>while candidate in written_names\<close> loop (lines 150-152), from the state
  \<open>(candidate, counter)\<close> it is entered with.
\<close>

function pick_candidate :: "pystr \<Rightarrow> pystr fset \<Rightarrow> pystr \<Rightarrow> nat \<Rightarrow> pystr" where
  "pick_candidate base written_names candidate counter =
     (if candidate |\<in>| written_names
      then pick_candidate base written_names (numbered base counter) (counter + 1)
      else candidate)"
  by pat_completeness auto

termination
proof (relation "measure (\<lambda>(base, written, candidate, counter).
         card {k. counter \<le> k \<and> numbered base k |\<in>| written}
         + (if candidate |\<in>| written then 1 else 0))")
  show "wf (measure (\<lambda>(base, written, candidate, counter).
         card {k. counter \<le> k \<and> numbered base k |\<in>| written}
         + (if candidate |\<in>| written then 1 else 0)))"
    by simp
next
  fix base :: pystr and written_names :: "pystr fset" and candidate :: pystr and counter :: nat
  assume taken: "candidate |\<in>| written_names"
  let ?later = "\<lambda>c. {k. c \<le> k \<and> numbered base k |\<in>| written_names}"
  have split: "?later counter = ?later (counter + 1)
      \<union> (if numbered base counter |\<in>| written_names then {counter} else {})"
    by (auto simp: le_eq_less_or_eq Suc_le_eq)
  have disj: "?later (counter + 1) \<inter> {counter} = {}"
    by auto
  have fin: "finite (?later (counter + 1))"
    by (rule finite_subset [OF _ finite_numbered [of base written_names]]) auto
  from split disj fin
  have "card (?later counter) = card (?later (counter + 1))
      + (if numbered base counter |\<in>| written_names then 1 else 0)"
    by (simp add: card_Un_disjoint)
  with taken
  show "((base, written_names, numbered base counter, counter + 1),
         (base, written_names, candidate, counter))
        \<in> measure (\<lambda>(base, written, candidate, counter).
             card {k. counter \<le> k \<and> numbered base k |\<in>| written}
             + (if candidate |\<in>| written then 1 else 0))"
    by simp
qed

declare pick_candidate.simps [simp del]

text \<open>
  What \<open>extract\<close> changes: the output directory (made or not) and the files in it, by
  file name.
\<close>

record output_state =
  dir_made :: bool
  files :: "pystr \<rightharpoonup> byte list"

text \<open>
  What \<open>extract\<close> meets outside the program, decided by the platform it runs on:
  \<^item> \<open>os_sep\<close> is \<open>os.sep\<close>;
  \<^item> \<open>mkdir_refused\<close>: \<open>output.mkdir\<close> raises \<open>OSError\<close>;
  \<^item> \<open>os_write dest data\<close>: what opening the file \<open>dest\<close> and writing \<open>data\<close> to it
    comes to. \<open>Written\<close>: the file holds \<open>data\<close>. \<open>Refused\<close>: opening raises \<open>OSError\<close>
    and nothing changes. \<open>Cut n\<close>: the file is created or truncated, \<open>n\<close> bytes are
    written and \<open>OSError\<close> is raised;
  \<^item> \<open>prettier_run dest data\<close>: what the formatter started by \<open>run_prettier\<close> does to the
    file \<open>dest\<close> holding \<open>data\<close>. \<open>Formatted out\<close>: it rewrites the file to \<open>out\<close>.
    \<open>Failed\<close>: \<open>run_prettier\<close> raises \<open>ExtractionError\<close> (the executable is not found,
    or it exits with an error), which the loop catches and reports, the file staying as
    written. \<open>Crashed\<close>: \<open>subprocess.run\<close> raises another \<open>OSError\<close> (the executable may
    not be run), which \<open>run_prettier\<close> does not catch.

  The \<open>print\<close> calls are left out: they write to the terminal only, and an exception of
  theirs is no \<open>ExtractionError\<close>.
\<close>

datatype write_outcome = Written | Refused | Cut nat

datatype prettier_outcome = Formatted "byte list" | Failed | Crashed

record platform =
  os_sep :: pystr
  mkdir_refused :: bool
  os_write :: "pystr \<Rightarrow> byte list \<Rightarrow> write_outcome"
  prettier_run :: "pystr \<Rightarrow> byte list \<Rightarrow> prettier_outcome"

text \<open>
  The exceptions of class \<open>ExtractionError\<close>, the only ones \<open>main\<close> catches and reports.
\<close>

definition is_extraction_error :: "error \<Rightarrow> bool" where
  "is_extraction_error e \<longleftrightarrow>
     e = TrailerNotFound \<or> e = OffsetsOutOfRange \<or> e = InvalidByteCount \<or> e = StartBeforeFile
     \<or> e = TableOutOfBounds \<or> e = PointerOutOfRange \<or> e = NoEntriesFound"

text \<open>
  \<open>dest.write_bytes(data)\<close> (line 156). Python refuses a file name with a NUL character
  in it before the platform is asked (\<open>ValueError\<close>: embedded null byte).
\<close>

definition write_bytes ::
  "platform \<Rightarrow> pystr \<Rightarrow> byte list \<Rightarrow> output_state \<Rightarrow> output_state \<times> error option" where
  "write_bytes env dest data st =
     (if 0 \<in> set dest then (st, Some ValueError)
      else
        (case os_write env dest data of
           Written \<Rightarrow> (st\<lparr>files := (files st)(dest \<mapsto> data)\<rparr>, None)
         | Refused \<Rightarrow> (st, Some OSError)
         | Cut n \<Rightarrow> (st\<lparr>files := (files st)(dest \<mapsto> take n data)\<rparr>, Some OSError)))"

text \<open>
  The loop over \<open>bundles\<close> (lines 144-164): the output state it leaves and the exception
  that ended it, if one did. The files written before that exception stay.
\<close>

fun write_bundles ::
  "platform \<Rightarrow> bool \<Rightarrow> (pystr \<times> byte list) list \<Rightarrow> pystr fset \<Rightarrow> output_state
     \<Rightarrow> output_state \<times> error option" where
  "write_bundles env prettify [] written_names st = (st, None)"
| "write_bundles env prettify ((name, contents) # rest) written_names st =
     (let rel_name = str_replace name (str_lit ''/$bunfs/root/'') [];
          replaced = str_replace
                       (str_replace (str_strip rel_name (str_lit ''/'')) (str_lit ''/'') (str_lit ''_''))
                       (os_sep env) (str_lit ''_'');
          base = (if replaced = [] then str_lit ''bundle'' else replaced);
          candidate = pick_candidate base written_names base 1;
          dest = candidate @ str_lit ''.js''
      in
        (case write_bytes env dest contents st of
           (st1, Some e) \<Rightarrow> (st1, Some e)
         | (st1, None) \<Rightarrow>
             if prettify
             then
               (case prettier_run env dest contents of
                  Formatted out \<Rightarrow>
                    write_bundles env prettify rest (finsert candidate written_names)
                      (st1\<lparr>files := (files st1)(dest \<mapsto> out)\<rparr>)
                | Failed \<Rightarrow>
                    write_bundles env prettify rest (finsert candidate written_names) st1
                | Crashed \<Rightarrow> (st1, Some OSError))
             else write_bundles env prettify rest (finsert candidate written_names) st1))"

text \<open>
  \<open>extract\<close> (named \<open>extract_bundles\<close> here, \<open>extract\<close> being a command of Isabelle), on
  the bytes \<open>buf\<close> read from the binary: the output state it leaves and the exception it
  raises, if any.
\<close>

definition extract_bundles ::
  "platform \<Rightarrow> byte list \<Rightarrow> bool \<Rightarrow> output_state \<Rightarrow> output_state \<times> error option" where
  "extract_bundles env buf prettify st =
     (case find_module_graph buf of
        Inl e \<Rightarrow> (st, Some e)
      | Inr (graph, modules_raw) \<Rightarrow>
          (case iter_modules graph modules_raw of
             (entries, Some e) \<Rightarrow> (st, Some e)
           | (entries, None) \<Rightarrow>
               let bundles =
                     map (\<lambda>(name, contents, encoding, loader, module_format, side). (name, contents))
                       (filter (\<lambda>(name, contents, encoding, loader, module_format, side).
                                   should_extract name encoding loader) entries)
               in if bundles = [] then (st, Some NoEntriesFound)
                  else if mkdir_refused env then (st, Some OSError)
                  else write_bundles env prettify bundles {||} (st\<lparr>dir_made := True\<rparr>)))"

section \<open>Vocabulary of the statements, and sample binaries\<close>

text \<open>\<open>sub\<close> occurs in \<open>s\<close> at index \<open>i\<close>.\<close>

definition occurs_at :: "'a list \<Rightarrow> 'a list \<Rightarrow> nat \<Rightarrow> bool" where
  "occurs_at sub s i \<longleftrightarrow> i + length sub \<le> length s \<and> take (length sub) (drop i s) = sub"

text \<open>
  The 32-bit little-endian field at byte \<open>pos\<close> of record \<open>k\<close> of the table that starts at
  \<open>modules_offset\<close> in the graph, and a pointer \<open>(offset, length)\<close> of non-zero length that
  ends beyond the graph.
\<close>

definition record_field :: "byte list \<Rightarrow> int \<Rightarrow> nat \<Rightarrow> nat \<Rightarrow> int" where
  "record_field graph modules_offset k pos =
     from_bytes_little (take 4 (drop (nat modules_offset + 36 * k + pos) graph))"

definition pointer_leaves :: "byte list \<Rightarrow> int \<times> int \<Rightarrow> bool" where
  "pointer_leaves graph p \<longleftrightarrow> snd p \<noteq> 0 \<and> int (length graph) < fst p + snd p"

text \<open>
  A module graph of 20 bytes of strings, \<open>app.js\<close> and \<open>console.log(1)\<close>, followed by the
  records table. \<open>sample_record\<close> names them: name pointer \<open>(0, 6)\<close>, contents pointer
  \<open>(6, 14)\<close>, encoding 1, loader 1. \<open>corrupt_record\<close> is the same with the contents pointer
  \<open>(90, 100)\<close>, which leaves the graph.
\<close>

definition sample_strings :: "byte list" where
  "sample_strings =
     [0x61, 0x70, 0x70, 0x2E, 0x6A, 0x73,
      0x63, 0x6F, 0x6E, 0x73, 0x6F, 0x6C, 0x65, 0x2E, 0x6C, 0x6F, 0x67, 0x28, 0x31, 0x29]"

definition sample_record :: "byte list" where
  "sample_record =
     [0x00, 0x00, 0x00, 0x00, 0x06, 0x00, 0x00, 0x00,
      0x06, 0x00, 0x00, 0x00, 0x0E, 0x00, 0x00, 0x00,
      0x00, 0x00, 0x00, 0x00, 0x00, 0x00, 0x00, 0x00,
      0x00, 0x00, 0x00, 0x00, 0x00, 0x00, 0x00, 0x00,
      0x01, 0x01, 0x00, 0x00]"

definition corrupt_record :: "byte list" where
  "corrupt_record =
     [0x00, 0x00, 0x00, 0x00, 0x06, 0x00, 0x00, 0x00,
      0x5A, 0x00, 0x00, 0x00, 0x64, 0x00, 0x00, 0x00,
      0x00, 0x00, 0x00, 0x00, 0x00, 0x00, 0x00, 0x00,
      0x00, 0x00, 0x00, 0x00, 0x00, 0x00, 0x00, 0x00,
      0x01, 0x01, 0x00, 0x00]"

text \<open>
  \<open>sample_binary\<close>: the graph with one record, its offsets header (byte count 56, modules
  pointer \<open>(20, 36)\<close>) and the trailer. \<open>corrupt_binary\<close>: the graph with the good record and
  the corrupt one behind it (byte count 92, modules pointer \<open>(20, 72)\<close>).
\<close>

definition sample_binary :: "byte list" where
  "sample_binary =
     sample_strings @ sample_record
     @ [0x38, 0x00, 0x00, 0x00, 0x00, 0x00, 0x00, 0x00,
        0x14, 0x00, 0x00, 0x00, 0x24, 0x00, 0x00, 0x00,
        0x00, 0x00, 0x00, 0x00, 0x00, 0x00, 0x00, 0x00,
        0x00, 0x00, 0x00, 0x00, 0x00, 0x00, 0x00, 0x00]
     @ TRAILER"

definition corrupt_binary :: "byte list" where
  "corrupt_binary =
     sample_strings @ sample_record @ corrupt_record
     @ [0x5C, 0x00, 0x00, 0x00, 0x00, 0x00, 0x00, 0x00,
        0x14, 0x00, 0x00, 0x00, 0x48, 0x00, 0x00, 0x00,
        0x00, 0x00, 0x00, 0x00, 0x00, 0x00, 0x00, 0x00,
        0x00, 0x00, 0x00, 0x00, 0x00, 0x00, 0x00, 0x00]
     @ TRAILER"



text \<open>
  \<open>corrupt_name_record\<close> is \<open>sample_record\<close> with the name pointer \<open>(90, 100)\<close>, which leaves the
  graph; \<open>corrupt_name_binary\<close> has it behind the good record. \<open>overrun_binary\<close> is
  \<open>sample_binary\<close> with the modules pointer \<open>(20, 72)\<close>, a table longer than the graph holds.
\<close>

definition corrupt_name_record :: "byte list" where
  "corrupt_name_record =
     [0x5A, 0x00, 0x00, 0x00, 0x64, 0x00, 0x00, 0x00,
      0x06, 0x00, 0x00, 0x00, 0x0E, 0x00, 0x00, 0x00,
      0x00, 0x00, 0x00, 0x00, 0x00, 0x00, 0x00, 0x00,
      0x00, 0x00, 0x00, 0x00, 0x00, 0x00, 0x00, 0x00,
      0x01, 0x01, 0x00, 0x00]"

definition corrupt_name_binary :: "byte list" where
  "corrupt_name_binary =
     sample_strings @ sample_record @ corrupt_name_record
     @ [0x5C, 0x00, 0x00, 0x00, 0x00, 0x00, 0x00, 0x00,
        0x14, 0x00, 0x00, 0x00, 0x48, 0x00, 0x00, 0x00,
        0x00, 0x00, 0x00, 0x00, 0x00, 0x00, 0x00, 0x00,
        0x00, 0x00, 0x00, 0x00, 0x00, 0x00, 0x00, 0x00]
     @ TRAILER"

definition overrun_binary :: "byte list" where
  "overrun_binary =
     sample_strings @ sample_record
     @ [0x38, 0x00, 0x00, 0x00, 0x00, 0x00, 0x00, 0x00,
        0x14, 0x00, 0x00, 0x00, 0x48, 0x00, 0x00, 0x00,
        0x00, 0x00, 0x00, 0x00, 0x00, 0x00, 0x00, 0x00,
        0x00, 0x00, 0x00, 0x00, 0x00, 0x00, 0x00, 0x00]
     @ TRAILER"

text \<open>
  A graph with the strings \<open>ok.js\<close>, \<open>a\<close> followed by two NUL bytes, and \<open>1;\<close>, and two
  records: \<open>ok.js\<close> with contents \<open>1;\<close>, and the name pointer \<open>(5, 3)\<close>, whose name keeps a NUL
  character once the trailing one is stripped, with the same contents.
\<close>

definition nul_strings :: "byte list" where
  "nul_strings = [0x6F, 0x6B, 0x2E, 0x6A, 0x73, 0x61, 0x00, 0x00, 0x31, 0x3B]"

definition nul_records :: "byte list" where
  "nul_records =
     [0x00, 0x00, 0x00, 0x00, 0x05, 0x00, 0x00, 0x00,
      0x08, 0x00, 0x00, 0x00, 0x02, 0x00, 0x00, 0x00,
      0x00, 0x00, 0x00, 0x00, 0x00, 0x00, 0x00, 0x00,
      0x00, 0x00, 0x00, 0x00, 0x00, 0x00, 0x00, 0x00,
      0x01, 0x01, 0x00, 0x00,
      0x05, 0x00, 0x00, 0x00, 0x03, 0x00, 0x00, 0x00,
      0x08, 0x00, 0x00, 0x00, 0x02, 0x00, 0x00, 0x00,
      0x00, 0x00, 0x00, 0x00, 0x00, 0x00, 0x00, 0x00,
      0x00, 0x00, 0x00, 0x00, 0x00, 0x00, 0x00, 0x00,
      0x01, 0x01, 0x00, 0x00]"

definition nul_binary :: "byte list" where
  "nul_binary =
     nul_strings @ nul_records
     @ [0x52, 0x00, 0x00, 0x00, 0x00, 0x00, 0x00, 0x00,
        0x0A, 0x00, 0x00, 0x00, 0x48, 0x00, 0x00, 0x00,
        0x00, 0x00, 0x00, 0x00, 0x00, 0x00, 0x00, 0x00,
        0x00, 0x00, 0x00, 0x00, 0x00, 0x00, 0x00, 0x00]
     @ TRAILER"

text \<open>
  A platform on which every file operation succeeds, with \<open>/\<close> as separator; the
  formatter is not installed.
\<close>

definition plain_platform :: platform where
  "plain_platform =
     \<lparr>os_sep = str_lit ''/'', mkdir_refused = False,
      os_write = (\<lambda>dest data. Written), prettier_run = (\<lambda>dest data. Failed)\<rparr>"

lemmas more_sample_defs = corrupt_name_record_def corrupt_name_binary_def overrun_binary_def
  nul_strings_def nul_records_def nul_binary_def

lemmas sample_defs = sample_binary_def corrupt_binary_def sample_strings_def sample_record_def
  corrupt_record_def TRAILER_def

section \<open>Properties of the packed pointer\<close>

lemma mask32: "(0xFFFFFFFF::int) = mask 32"
  by (simp add: mask_eq_exp_minus_1)

lemma decode_pointer_take_bit:
  "decode_pointer raw = (take_bit 32 raw, take_bit 32 (drop_bit 32 raw))"
  by (simp add: decode_pointer_def mask32 take_bit_eq_mask Let_def)

lemma decode_pointer_div_mod:
  "decode_pointer raw = (raw mod 2 ^ 32, (raw div 2 ^ 32) mod 2 ^ 32)"
  by (simp add: decode_pointer_take_bit take_bit_eq_mod drop_bit_eq_div)

lemma bit_bounded_int:
  fixes k :: int
  assumes "0 \<le> k" and "k < 2 ^ w" and "bit k n"
  shows "n < w"
proof -
  have "take_bit w k = k"
    using assms(1,2) by (simp add: take_bit_int_eq_self)
  then have "bit (take_bit w k) n"
    using assms(3) by simp
  then show ?thesis
    by (simp add: bit_take_bit_iff)
qed

lemma decode_pointer_join:
  assumes "0 \<le> offset" and "offset < 2 ^ 32" and "0 \<le> len" and "len < 2 ^ 32"
  shows "decode_pointer (push_bit 32 len OR offset) = (offset, len)"
proof -
  have lo: "take_bit 32 (push_bit 32 len OR offset) = offset"
    using assms(1,2) by (simp add: take_bit_push_bit take_bit_int_eq_self)
  have "drop_bit 32 offset = 0"
    using assms(1,2) by (simp add: drop_bit_int_def)
  then have "drop_bit 32 (push_bit 32 len OR offset) = len"
    by (simp add: drop_bit_or drop_bit_push_bit)
  then have hi: "take_bit 32 (drop_bit 32 (push_bit 32 len OR offset)) = len"
    using assms(3,4) by (simp add: take_bit_int_eq_self)
  show ?thesis
    by (simp only: decode_pointer_take_bit lo hi)
qed

lemma join_decode_pointer:
  assumes "0 \<le> raw" and "raw < 2 ^ 64"
  shows "(case decode_pointer raw of (offset, len) \<Rightarrow> push_bit 32 len OR offset) = raw"
proof -
  have "push_bit 32 (take_bit 32 (drop_bit 32 raw)) OR take_bit 32 raw = raw"
  proof (rule bit_eqI)
    fix n
    have high: "bit raw n \<Longrightarrow> n < 64"
      using bit_bounded_int [OF assms] by simp
    show "bit (push_bit 32 (take_bit 32 (drop_bit 32 raw)) OR take_bit 32 raw) n = bit raw n"
      using high by (auto simp add: bit_simps)
  qed
  then show ?thesis
    by (simp add: decode_pointer_take_bit)
qed

text \<open>
  Claim C7. Splitting a packed pointer is a bijection between the 64-bit values and the
  pairs of 32-bit values: for unsigned 32-bit \<open>offset\<close> and \<open>len\<close>, decoding
  \<open>(len << 32) | offset\<close> gives back \<open>(offset, len)\<close>, and for an unsigned 64-bit \<open>raw\<close>,
  packing the decoded pair again gives back \<open>raw\<close>.
\<close>

theorem decode_pointer_bijection:
  "(0 \<le> offset \<and> offset < 2 ^ 32 \<and> 0 \<le> len \<and> len < 2 ^ 32 \<longrightarrow>
      decode_pointer (push_bit 32 len OR offset) = (offset, len))
   \<and> (0 \<le> raw \<and> raw < 2 ^ 64 \<longrightarrow>
      (case decode_pointer raw of (off, n) \<Rightarrow>
         0 \<le> off \<and> off < 2 ^ 32 \<and> 0 \<le> n \<and> n < 2 ^ 32 \<and> push_bit 32 n OR off = raw))"
proof (intro conjI impI)
  assume "0 \<le> offset \<and> offset < 2 ^ 32 \<and> 0 \<le> len \<and> len < 2 ^ 32"
  then show "decode_pointer (push_bit 32 len OR offset) = (offset, len)"
    by (simp add: decode_pointer_join)
next
  assume "0 \<le> raw \<and> raw < 2 ^ 64"
  then have "(case decode_pointer raw of (off, n) \<Rightarrow> push_bit 32 n OR off) = raw"
    by (simp add: join_decode_pointer)
  then show "case decode_pointer raw of (off, n) \<Rightarrow>
         0 \<le> off \<and> off < 2 ^ 32 \<and> 0 \<le> n \<and> n < 2 ^ 32 \<and> push_bit 32 n OR off = raw"
    using take_bit_int_less_exp [of 32 raw] take_bit_int_less_exp [of 32 "drop_bit 32 raw"]
    by (simp add: decode_pointer_take_bit)
qed

theorem decode_pointer_bijection_witness:
  "decode_pointer (push_bit 32 5 OR 3) = (3, 5)
   \<and> (case decode_pointer 0x0000000700000009 of (off, n) \<Rightarrow>
         off = 9 \<and> n = 7 \<and> push_bit 32 n OR off = 0x0000000700000009)"
proof -
  have split: "decode_pointer 0x0000000700000009 = (9, 7)"
    by (simp add: decode_pointer_div_mod)
  show ?thesis
    using decode_pointer_bijection [of 3 5 "0x0000000700000009"] split
    by simp
qed

section \<open>Properties of slice resolution\<close>

lemma py_slice_in_range:
  "0 \<le> i \<Longrightarrow> i \<le> j \<Longrightarrow> j \<le> int (length xs) \<Longrightarrow>
     py_slice xs i j = take (nat (j - i)) (drop (nat i) xs)"
  by (simp add: py_slice_def Let_def min_def)

lemma py_slice_drop_last: "py_slice xs 0 (-1) = butlast xs"
  by (cases xs rule: rev_cases) (simp_all add: py_slice_def Let_def)

lemma endswith_single: "endswith xs [c] \<longleftrightarrow> xs \<noteq> [] \<and> last xs = c"
proof (cases xs rule: rev_cases)
  case Nil
  then show ?thesis by (simp add: endswith_def)
next
  case (snoc ys y)
  then show ?thesis by (auto simp add: endswith_def)
qed

lemma slice_from_reads_in_range:
  assumes "0 \<le> offset" and "0 < len" and "offset + len \<le> int (length blob)"
  shows "slice_from_reads blob (offset, len) =
           ([(offset, offset + len)],
            Inr (let data = take (nat len) (drop (nat offset) blob)
                 in if last data = 0 then butlast data else data))"
proof -
  have ne: "take (nat len) (drop (nat offset) blob) \<noteq> []"
    using assms by (auto simp add: take_eq_Nil)
  show ?thesis
    using assms ne
    by (simp add: slice_from_reads_def py_slice_in_range py_slice_drop_last endswith_single Let_def)
qed

lemma slice_from_reads_out_of_range:
  assumes "len \<noteq> 0" and "offset < 0 \<or> int (length blob) < offset + len"
  shows "slice_from_reads blob (offset, len) = ([], Inl PointerOutOfRange)"
  using assms by (auto simp add: slice_from_reads_def Let_def)

lemma slice_from_reads_empty: "slice_from_reads blob (offset, 0) = ([], Inr [])"
  by (simp add: slice_from_reads_def)

text \<open>
  Claim C1. For a packed pointer \<open>(offset, len)\<close> with \<open>len > 0\<close> (its offset is unsigned),
  slice resolution succeeds exactly when \<open>offset + len\<close> is at most the length of the
  region: \<open>offset + len\<close> equal to the length succeeds, one more fails with
  \<open>PointerOutOfRange\<close>. The check comes before any access to the bytes of the region: a
  failing resolution has evaluated no slice of the region, and a successful one has
  evaluated the one slice \<open>[offset, offset + len)\<close>.
\<close>

theorem slice_from_bounds:
  assumes "0 \<le> offset" and "0 < len"
  shows "((\<exists>data. slice_from blob (offset, len) = Inr data) \<longleftrightarrow> offset + len \<le> int (length blob))
       \<and> (offset + len = int (length blob) \<longrightarrow> (\<exists>data. slice_from blob (offset, len) = Inr data))
       \<and> (offset + len = int (length blob) + 1 \<longrightarrow>
            slice_from blob (offset, len) = Inl PointerOutOfRange)
       \<and> (int (length blob) < offset + len \<longrightarrow>
            slice_from_reads blob (offset, len) = ([], Inl PointerOutOfRange))
       \<and> (offset + len \<le> int (length blob) \<longrightarrow>
            fst (slice_from_reads blob (offset, len)) = [(offset, offset + len)])"
proof (cases "offset + len \<le> int (length blob)")
  case True
  with assms show ?thesis
    by (simp add: slice_from_def slice_from_reads_in_range)
next
  case False
  with assms have "slice_from_reads blob (offset, len) = ([], Inl PointerOutOfRange)"
    by (simp add: slice_from_reads_out_of_range)
  with False show ?thesis
    by (simp add: slice_from_def)
qed

theorem slice_from_bounds_witness:
  "(\<exists>data. slice_from [1, 2, 3] (1, 2) = Inr data)
   \<and> fst (slice_from_reads [1, 2, 3] (1, 2)) = [(1, 3)]
   \<and> slice_from [1, 2, 3] (1, 3) = Inl PointerOutOfRange
   \<and> slice_from_reads [1, 2, 3] (1, 3) = ([], Inl PointerOutOfRange)"
  using slice_from_bounds [of 1 2 "[1, 2, 3]"] slice_from_bounds [of 1 3 "[1, 2, 3]"]
  by simp

text \<open>
  Claim C10. A pointer of length 0 resolves to the empty byte sequence for every region and
  every offset, also an offset beyond the end of the region: no bounds check is made, no
  \<open>PointerOutOfRange\<close> is raised and no byte of the region is read.
\<close>

theorem slice_from_zero_length:
  "slice_from blob (offset, 0) = Inr [] \<and> slice_from_reads blob (offset, 0) = ([], Inr [])"
  by (simp add: slice_from_def slice_from_reads_empty)

text \<open>
  Claim C5. For a pointer with \<open>len > 0\<close> that is in range, with \<open>r\<close> the byte range it
  designates: the result is \<open>r\<close> without its last byte when that byte is NUL, and \<open>r\<close>
  otherwise. So a range ending in two NUL bytes gives a result ending in one of them, a
  range ending in a single NUL byte gives the bytes before it, and a range not ending in
  NUL comes back unchanged.
\<close>

theorem slice_from_strips_one_nul:
  assumes "0 \<le> offset" and "0 < len" and "offset + len \<le> int (length blob)"
    and "r = take (nat len) (drop (nat offset) blob)"
  shows "slice_from blob (offset, len) = Inr (if last r = 0 then butlast r else r)
       \<and> (\<forall>xs. r = xs @ [0, 0] \<longrightarrow> slice_from blob (offset, len) = Inr (xs @ [0]))
       \<and> (\<forall>xs. r = xs @ [0] \<and> \<not> endswith xs [0] \<longrightarrow>
             slice_from blob (offset, len) = Inr xs)
       \<and> (\<not> endswith r [0] \<longrightarrow> slice_from blob (offset, len) = Inr r)"
proof -
  have ne: "r \<noteq> []"
    using assms by (auto simp add: take_eq_Nil)
  have res: "slice_from blob (offset, len) = Inr (if last r = 0 then butlast r else r)"
    using assms by (simp add: slice_from_def slice_from_reads_in_range Let_def)
  have two: "slice_from blob (offset, len) = Inr (xs @ [0])" if "r = xs @ [0, 0]" for xs
    using res that by (simp add: butlast_append)
  have one: "slice_from blob (offset, len) = Inr xs" if "r = xs @ [0]" for xs
    using res that by simp
  have none: "slice_from blob (offset, len) = Inr r" if "\<not> endswith r [0]"
    using res that ne by (simp add: endswith_single)
  from res two one none show ?thesis
    by blast
qed

theorem slice_from_strips_one_nul_witness:
  "slice_from [7, 65, 0, 0, 9] (1, 3) = Inr [65, 0]
   \<and> slice_from [7, 65, 0, 0, 9] (1, 2) = Inr [65]
   \<and> slice_from [7, 65, 0, 0, 9] (0, 2) = Inr [7, 65]"
  using slice_from_strips_one_nul [of 1 3 "[7, 65, 0, 0, 9]" "[65, 0, 0]"]
    slice_from_strips_one_nul [of 1 2 "[7, 65, 0, 0, 9]" "[65, 0]"]
    slice_from_strips_one_nul [of 0 2 "[7, 65, 0, 0, 9]" "[7, 65]"]
  by (simp add: endswith_def)

section \<open>Properties of the eligibility predicate\<close>

text \<open>
  Claim C6. An entry is eligible exactly when its encoding is not 0 and either its name
  ends with one of the six suffixes or its loader is 1 or 2. In particular an entry with
  encoding 0 is never eligible, an entry with a non-zero encoding and a name ending in
  \<open>.ts\<close> is eligible for every loader, and an entry with a non-zero encoding and loader 1 is
  eligible whatever its name.
\<close>

theorem should_extract_iff:
  "(should_extract name encoding loader \<longleftrightarrow>
      encoding \<noteq> 0 \<and>
      ((endswith name (str_lit ''.js'') \<or> endswith name (str_lit ''.jsx'')
        \<or> endswith name (str_lit ''.ts'') \<or> endswith name (str_lit ''.tsx'')
        \<or> endswith name (str_lit ''.mjs'') \<or> endswith name (str_lit ''.cjs''))
       \<or> loader = 1 \<or> loader = 2))
   \<and> \<not> should_extract name 0 loader
   \<and> (encoding \<noteq> 0 \<and> endswith name (str_lit ''.ts'') \<longrightarrow> should_extract name encoding loader)
   \<and> (encoding \<noteq> 0 \<longrightarrow> should_extract name encoding 1)"
  by (simp add: should_extract_def JS_EXTENSIONS_def)

theorem should_extract_iff_witness:
  "should_extract (str_lit ''app.ts'') 1 7
   \<and> should_extract (str_lit ''app.bin'') 1 1
   \<and> \<not> should_extract (str_lit ''app.bin'') 1 7
   \<and> \<not> should_extract (str_lit ''app.ts'') 0 1"
  using should_extract_iff [of "str_lit ''app.ts''" 1 7]
    should_extract_iff [of "str_lit ''app.bin''" 1 1]
    should_extract_iff [of "str_lit ''app.bin''" 1 7]
    should_extract_iff [of "str_lit ''app.ts''" 0 1]
  by (simp add: endswith_def str_lit_def)

section \<open>Properties of the records table check\<close>

text \<open>
  Claim C4. With \<open>modules_offset\<close> the low and \<open>modules_length\<close> the high 32 bits of the
  modules pointer: when \<open>modules_length\<close> is 0 or not a multiple of 36, the decoder yields
  nothing and raises nothing, whatever \<open>modules_offset\<close> and the graph are; otherwise, when
  \<open>modules_offset + modules_length\<close> exceeds the length of the graph, it yields nothing and
  raises \<open>TableOutOfBounds\<close>.
\<close>

theorem iter_modules_empty_or_out_of_bounds:
  "((raw div 2 ^ 32) mod 2 ^ 32 = 0 \<or> ((raw div 2 ^ 32) mod 2 ^ 32) mod 36 \<noteq> 0 \<longrightarrow>
      iter_modules graph raw = ([], None))
   \<and> ((raw div 2 ^ 32) mod 2 ^ 32 \<noteq> 0 \<and> ((raw div 2 ^ 32) mod 2 ^ 32) mod 36 = 0
        \<and> int (length graph) < raw mod 2 ^ 32 + (raw div 2 ^ 32) mod 2 ^ 32 \<longrightarrow>
      iter_modules graph raw = ([], Some TableOutOfBounds))"
  by (simp add: iter_modules_def decode_pointer_div_mod MODULE_STRUCT_SIZE_def)

theorem iter_modules_empty_or_out_of_bounds_witness:
  "iter_modules [] (push_bit 32 35 OR 1000) = ([], None)
   \<and> iter_modules [] (push_bit 32 0 OR 1000) = ([], None)
   \<and> iter_modules [1, 2, 3] (push_bit 32 36 OR 0) = ([], Some TableOutOfBounds)"
  using iter_modules_empty_or_out_of_bounds [of "push_bit 32 35 OR 1000" "[]"]
    iter_modules_empty_or_out_of_bounds [of "push_bit 32 0 OR 1000" "[]"]
    iter_modules_empty_or_out_of_bounds [of "push_bit 32 36 OR 0" "[1, 2, 3]"]
  by simp

section \<open>Properties of the locator\<close>

lemma occurs_at_candidate:
  "i + length sub \<le> length s \<Longrightarrow> take (length sub) (drop i s) = sub \<longleftrightarrow> occurs_at sub s i"
  by (simp add: occurs_at_def)

lemma rfind_from_spec:
  assumes "n + length sub \<le> length s"
  shows "if \<exists>i\<le>n. occurs_at sub s i
         then \<exists>t\<le>n. rfind_from s sub n = int t \<and> occurs_at sub s t
                \<and> (\<forall>j\<le>n. occurs_at sub s j \<longrightarrow> j \<le> t)
         else rfind_from s sub n = -1"
  using assms
proof (induction n)
  case 0
  then show ?case
    using occurs_at_candidate [of 0 sub s] by auto
next
  case (Suc n)
  from Suc.prems have here: "take (length sub) (drop (Suc n) s) = sub \<longleftrightarrow> occurs_at sub s (Suc n)"
    by (rule occurs_at_candidate)
  from Suc.prems have below: "n + length sub \<le> length s"
    by simp
  show ?case
  proof (cases "occurs_at sub s (Suc n)")
    case True
    with here have "rfind_from s sub (Suc n) = int (Suc n)"
      by simp
    with True show ?thesis
      by auto
  next
    case False
    with here have step: "rfind_from s sub (Suc n) = rfind_from s sub n"
      by simp
    from False have same: "(\<exists>i\<le>Suc n. occurs_at sub s i) \<longleftrightarrow> (\<exists>i\<le>n. occurs_at sub s i)"
      by (metis le_Suc_eq)
    show ?thesis
    proof (cases "\<exists>i\<le>n. occurs_at sub s i")
      case True
      with Suc.IH [OF below] obtain t where t: "t \<le> n" "rfind_from s sub n = int t"
        "occurs_at sub s t" "\<forall>j\<le>n. occurs_at sub s j \<longrightarrow> j \<le> t"
        by auto
      from t(4) False have "\<forall>j\<le>Suc n. occurs_at sub s j \<longrightarrow> j \<le> t"
        by (metis le_Suc_eq)
      with t True same step show ?thesis
        by (auto intro!: exI [of _ t])
    next
      case none: False
      with Suc.IH [OF below] have "rfind_from s sub n = -1"
        by simp
      with none same step show ?thesis
        by simp
    qed
  qed
qed

lemma rfind_spec:
  "if \<exists>i. occurs_at sub s i
   then \<exists>t. rfind s sub = int t \<and> occurs_at sub s t \<and> (\<forall>j. occurs_at sub s j \<longrightarrow> j \<le> t)
   else rfind s sub = -1"
proof (cases "length sub \<le> length s")
  case True
  then have fit: "(length s - length sub) + length sub \<le> length s"
    by simp
  have reach: "occurs_at sub s i \<Longrightarrow> i \<le> length s - length sub" for i
    by (auto simp: occurs_at_def)
  have r: "rfind s sub = rfind_from s sub (length s - length sub)"
    using True by (simp add: rfind_def)
  show ?thesis
  proof (cases "\<exists>i. occurs_at sub s i")
    case True
    with reach have "\<exists>i\<le>length s - length sub. occurs_at sub s i"
      by auto
    with rfind_from_spec [OF fit] obtain t where
      "rfind_from s sub (length s - length sub) = int t" "occurs_at sub s t"
      "\<forall>j\<le>length s - length sub. occurs_at sub s j \<longrightarrow> j \<le> t"
      by auto
    with reach r True show ?thesis
      by (auto intro!: exI [of _ t])
  next
    case False
    then have "\<not> (\<exists>i\<le>length s - length sub. occurs_at sub s i)"
      by simp
    with rfind_from_spec [OF fit] r False show ?thesis
      by simp
  qed
next
  case False
  then have "\<not> occurs_at sub s i" for i
    by (auto simp: occurs_at_def)
  with False show ?thesis
    by (simp add: rfind_def)
qed

lemma rfind_absent: "rfind s sub = -1 \<longleftrightarrow> \<not> (\<exists>i. occurs_at sub s i)"
  using rfind_spec [of sub s] by (auto split: if_splits)

lemma rfind_last:
  "rfind s sub = int t \<longleftrightarrow> occurs_at sub s t \<and> (\<forall>j. occurs_at sub s j \<longrightarrow> j \<le> t)"
proof
  assume "rfind s sub = int t"
  with rfind_spec [of sub s] show "occurs_at sub s t \<and> (\<forall>j. occurs_at sub s j \<longrightarrow> j \<le> t)"
    by (auto split: if_splits)
next
  assume last: "occurs_at sub s t \<and> (\<forall>j. occurs_at sub s j \<longrightarrow> j \<le> t)"
  then have "\<exists>i. occurs_at sub s i" by auto
  with rfind_spec [of sub s] obtain u where u: "rfind s sub = int u" "occurs_at sub s u"
    "\<forall>j. occurs_at sub s j \<longrightarrow> j \<le> u"
    by auto
  with last have "u = t" by (simp add: le_antisym)
  with u show "rfind s sub = int t" by simp
qed

lemma from_bytes_little_bounds:
  "0 \<le> from_bytes_little bs \<and> from_bytes_little bs < 256 ^ length bs"
proof (induction bs)
  case Nil
  then show ?case by simp
next
  case (Cons b bs)
  have "uint b < 256" using uint_bounded [of b] by simp
  moreover have "0 \<le> uint b" by simp
  ultimately show ?case using Cons by simp
qed


lemma find_module_graph_at:
  assumes "rfind buffer TRAILER = int t"
  shows "find_module_graph buffer =
     (if t < 32 then Inl OffsetsOutOfRange
      else
        let byte_count = from_bytes_little (take 8 (drop (t - 32) buffer)) in
        if byte_count = 0 \<or> int (length buffer) < byte_count then Inl InvalidByteCount
        else if int t - 32 < byte_count then Inl StartBeforeFile
        else Inr (take (nat byte_count) (drop (t - 32 - nat byte_count) buffer),
                  from_bytes_little (take 8 (drop (t - 24) buffer))))"
proof (cases "t < 32")
  case True
  with assms show ?thesis
    by (simp add: find_module_graph_def OFFSETS_STRUCT_SIZE_def)
next
  case False
  from assms have "occurs_at TRAILER buffer t"
    by (simp add: rfind_last)
  then have len: "t + 16 \<le> length buffer"
    by (simp add: occurs_at_def TRAILER_def)
  have s1: "py_slice buffer (int t - 32) (int t - 24) = take 8 (drop (t - 32) buffer)"
    using False len by (simp add: py_slice_in_range nat_diff_distrib)
  have s2: "py_slice buffer (int t - 24) (int t - 16) = take 8 (drop (t - 24) buffer)"
    using False len by (simp add: py_slice_in_range nat_diff_distrib)
  have nonneg: "0 \<le> from_bytes_little (take 8 (drop (t - 32) buffer))"
    by (simp add: from_bytes_little_bounds)
  have s3: "py_slice buffer (int t - 32 - bc) (int t - 32) = take (nat bc) (drop (t - 32 - nat bc) buffer)"
    if "0 \<le> bc" "bc \<le> int t - 32" for bc
    using False len that by (simp add: py_slice_in_range nat_diff_distrib)
  show ?thesis
    using assms False nonneg s3
    by (auto simp add: find_module_graph_def OFFSETS_STRUCT_SIZE_def s1 s2 Let_def)
qed

text \<open>
  Claim C2. The locator fails with \<open>TrailerNotFound\<close> exactly when the 16-byte marker
  occurs nowhere in the buffer. When it occurs, the index the locator works from is that of
  its last occurrence. On success, with \<open>t\<close> that index and \<open>byte_count\<close> the little-endian
  value of the 8 bytes at \<open>t - 32\<close>, the module graph returned is the byte range
  \<open>[t - 32 - byte_count, t - 32)\<close> of the buffer, and the modules pointer returned is the
  little-endian value of the 8 bytes at \<open>t - 24\<close>.
\<close>

theorem find_module_graph_locates:
  "(find_module_graph buffer = Inl TrailerNotFound \<longleftrightarrow> \<not> (\<exists>i. occurs_at TRAILER buffer i))
   \<and> (\<forall>t. occurs_at TRAILER buffer t \<and> (\<forall>j. occurs_at TRAILER buffer j \<longrightarrow> j \<le> t) \<longrightarrow>
          rfind buffer TRAILER = int t)
   \<and> (\<forall>graph raw. find_module_graph buffer = Inr (graph, raw) \<longrightarrow>
        (\<exists>t byte_count.
           occurs_at TRAILER buffer t \<and> (\<forall>j. occurs_at TRAILER buffer j \<longrightarrow> j \<le> t)
           \<and> int byte_count = from_bytes_little (take 8 (drop (t - 32) buffer))
           \<and> 32 + byte_count \<le> t
           \<and> graph = take byte_count (drop (t - 32 - byte_count) buffer)
           \<and> raw = from_bytes_little (take 8 (drop (t - 24) buffer))))"
proof (intro conjI allI impI)
  show "find_module_graph buffer = Inl TrailerNotFound \<longleftrightarrow> \<not> (\<exists>i. occurs_at TRAILER buffer i)"
  proof (cases "\<exists>i. occurs_at TRAILER buffer i")
    case True
    with rfind_spec [of TRAILER buffer] obtain t where "rfind buffer TRAILER = int t"
      by auto
    then have "find_module_graph buffer \<noteq> Inl TrailerNotFound"
      by (simp add: find_module_graph_at Let_def)
    with True show ?thesis by simp
  next
    case False
    then have "rfind buffer TRAILER = -1"
      by (simp add: rfind_absent)
    with False show ?thesis
      by (simp add: find_module_graph_def)
  qed
next
  fix t
  assume "occurs_at TRAILER buffer t \<and> (\<forall>j. occurs_at TRAILER buffer j \<longrightarrow> j \<le> t)"
  then show "rfind buffer TRAILER = int t"
    by (simp add: rfind_last)
next
  fix graph raw
  assume ok: "find_module_graph buffer = Inr (graph, raw)"
  then have "rfind buffer TRAILER \<noteq> -1"
    by (auto simp add: find_module_graph_def)
  with rfind_spec [of TRAILER buffer] obtain t where t: "rfind buffer TRAILER = int t"
    by (auto split: if_splits)
  then have last: "occurs_at TRAILER buffer t \<and> (\<forall>j. occurs_at TRAILER buffer j \<longrightarrow> j \<le> t)"
    by (simp add: rfind_last)
  define bc where "bc = from_bytes_little (take 8 (drop (t - 32) buffer))"
  from ok have *: "\<not> t < 32" "\<not> int t - 32 < bc" "bc \<noteq> 0"
    "graph = take (nat bc) (drop (t - 32 - nat bc) buffer)"
    "raw = from_bytes_little (take 8 (drop (t - 24) buffer))"
    unfolding find_module_graph_at [OF t] bc_def Let_def
    by (auto split: if_splits)
  have "0 \<le> bc"
    by (simp add: bc_def from_bytes_little_bounds)
  with * last show "\<exists>t byte_count.
           occurs_at TRAILER buffer t \<and> (\<forall>j. occurs_at TRAILER buffer j \<longrightarrow> j \<le> t)
           \<and> int byte_count = from_bytes_little (take 8 (drop (t - 32) buffer))
           \<and> 32 + byte_count \<le> t
           \<and> graph = take byte_count (drop (t - 32 - byte_count) buffer)
           \<and> raw = from_bytes_little (take 8 (drop (t - 24) buffer))"
    by (intro exI [of _ t] exI [of _ "nat bc"]) (auto simp add: bc_def)
qed

text \<open>
  Claim C3. Let the last occurrence of the marker be at index \<open>t\<close>. When \<open>t < 32\<close> the
  locator fails with \<open>OffsetsOutOfRange\<close>. When \<open>t \<ge> 32\<close>, with \<open>byte_count\<close> the
  little-endian unsigned 64-bit value of the 8 bytes at \<open>t - 32\<close>: the locator fails with
  \<open>InvalidByteCount\<close> exactly when \<open>byte_count\<close> is 0 or greater than the length of the
  buffer; otherwise it fails with \<open>StartBeforeFile\<close> exactly when
  \<open>t - 32 - byte_count\<close> is negative.
\<close>

theorem find_module_graph_header_checks:
  assumes "occurs_at TRAILER buffer t" and "\<forall>j. occurs_at TRAILER buffer j \<longrightarrow> j \<le> t"
    and "byte_count = from_bytes_little (take 8 (drop (t - 32) buffer))"
  shows "(t < 32 \<longrightarrow> find_module_graph buffer = Inl OffsetsOutOfRange)
       \<and> (32 \<le> t \<longrightarrow>
            0 \<le> byte_count \<and> byte_count < 2 ^ 64
            \<and> (find_module_graph buffer = Inl InvalidByteCount \<longleftrightarrow>
                 byte_count = 0 \<or> int (length buffer) < byte_count)
            \<and> (\<not> (byte_count = 0 \<or> int (length buffer) < byte_count) \<longrightarrow>
                 (find_module_graph buffer = Inl StartBeforeFile \<longleftrightarrow>
                    int t - 32 - byte_count < 0)))"
proof -
  from assms(1,2) have t: "rfind buffer TRAILER = int t"
    by (simp add: rfind_last)
  have "length (take 8 (drop (t - 32) buffer)) \<le> 8"
    by simp
  then have "(256::int) ^ length (take 8 (drop (t - 32) buffer)) \<le> 256 ^ 8"
    by (intro power_increasing) simp_all
  with from_bytes_little_bounds [of "take 8 (drop (t - 32) buffer)"]
  have bounds: "0 \<le> byte_count" "byte_count < 2 ^ 64"
    by (simp_all add: assms(3))
  show ?thesis
    using bounds
    by (auto simp add: find_module_graph_at [OF t] assms(3) [symmetric] Let_def)
qed

lemma rfind_sample_binary: "rfind sample_binary TRAILER = int 88"
  by (simp add: sample_defs rfind_def numeral_eq_Suc)

lemma rfind_corrupt_binary: "rfind corrupt_binary TRAILER = int 124"
  by (simp add: sample_defs rfind_def numeral_eq_Suc)

lemma find_sample_binary:
  "find_module_graph sample_binary = Inr (sample_strings @ sample_record, 0x0000002400000014)"
  by (subst find_module_graph_at [OF rfind_sample_binary]) (simp add: sample_defs)

lemma find_corrupt_binary:
  "find_module_graph corrupt_binary =
     Inr (sample_strings @ sample_record @ corrupt_record, 0x0000004800000014)"
  by (subst find_module_graph_at [OF rfind_corrupt_binary]) (simp add: sample_defs)



theorem find_module_graph_locates_witness:
  "find_module_graph [1, 2, 3] = Inl TrailerNotFound
   \<and> rfind sample_binary TRAILER = 88
   \<and> (\<exists>t byte_count.
         occurs_at TRAILER sample_binary t
         \<and> (\<forall>j. occurs_at TRAILER sample_binary j \<longrightarrow> j \<le> t)
         \<and> int byte_count = from_bytes_little (take 8 (drop (t - 32) sample_binary))
         \<and> 32 + byte_count \<le> t
         \<and> sample_strings @ sample_record = take byte_count (drop (t - 32 - byte_count) sample_binary)
         \<and> 0x0000002400000014 = from_bytes_little (take 8 (drop (t - 24) sample_binary)))"
proof -
  have absent: "\<not> (\<exists>i. occurs_at TRAILER [1, 2, 3 :: byte] i)"
    by (simp add: occurs_at_def TRAILER_def)
  have last: "occurs_at TRAILER sample_binary 88
      \<and> (\<forall>j. occurs_at TRAILER sample_binary j \<longrightarrow> j \<le> 88)"
    by (rule rfind_last [THEN iffD1, OF rfind_sample_binary])
  from find_module_graph_locates [of "[1, 2, 3]"] absent
  have first: "find_module_graph [1, 2, 3] = Inl TrailerNotFound"
    by blast
  from find_module_graph_locates [of sample_binary] last
  have second: "rfind sample_binary TRAILER = 88"
    by simp
  from find_module_graph_locates [of sample_binary] find_sample_binary
  have third: "\<exists>t byte_count.
         occurs_at TRAILER sample_binary t
         \<and> (\<forall>j. occurs_at TRAILER sample_binary j \<longrightarrow> j \<le> t)
         \<and> int byte_count = from_bytes_little (take 8 (drop (t - 32) sample_binary))
         \<and> 32 + byte_count \<le> t
         \<and> sample_strings @ sample_record = take byte_count (drop (t - 32 - byte_count) sample_binary)
         \<and> 0x0000002400000014 = from_bytes_little (take 8 (drop (t - 24) sample_binary))"
    by blast
  from first second third show ?thesis
    by blast
qed

lemma from_bytes_little_zeros: "from_bytes_little (replicate n 0) = 0"
  by (induction n) simp_all

lemma rfind_bare_trailer: "rfind TRAILER TRAILER = int 0"
  by (simp add: rfind_def)

lemma rfind_zero_header: "rfind (replicate 32 0 @ TRAILER) TRAILER = int 32"
  by (simp add: rfind_def TRAILER_def numeral_eq_Suc)

lemma rfind_large_count: "rfind ([200] @ replicate 31 0 @ TRAILER) TRAILER = int 32"
  by (simp add: rfind_def TRAILER_def numeral_eq_Suc)

lemma rfind_early_start: "rfind ([40] @ replicate 31 0 @ TRAILER) TRAILER = int 32"
  by (simp add: rfind_def TRAILER_def numeral_eq_Suc)

theorem find_module_graph_header_checks_witness:
  "find_module_graph TRAILER = Inl OffsetsOutOfRange
   \<and> find_module_graph (replicate 32 0 @ TRAILER) = Inl InvalidByteCount
   \<and> find_module_graph ([200] @ replicate 31 0 @ TRAILER) = Inl InvalidByteCount
   \<and> find_module_graph ([40] @ replicate 31 0 @ TRAILER) = Inl StartBeforeFile
   \<and> find_module_graph sample_binary \<noteq> Inl InvalidByteCount
   \<and> find_module_graph sample_binary \<noteq> Inl StartBeforeFile"
proof -
  note last_a = rfind_last [THEN iffD1, OF rfind_bare_trailer]
  note last_b = rfind_last [THEN iffD1, OF rfind_zero_header]
  note last_c = rfind_last [THEN iffD1, OF rfind_large_count]
  note last_d = rfind_last [THEN iffD1, OF rfind_early_start]
  have a: "find_module_graph TRAILER = Inl OffsetsOutOfRange"
    using find_module_graph_header_checks [OF last_a [THEN conjunct1] last_a [THEN conjunct2] refl]
    by simp
  have b: "find_module_graph (replicate 32 0 @ TRAILER) = Inl InvalidByteCount"
    using find_module_graph_header_checks [OF last_b [THEN conjunct1] last_b [THEN conjunct2] refl]
    by (simp add: numeral_eq_Suc)
  have c: "find_module_graph ([200] @ replicate 31 0 @ TRAILER) = Inl InvalidByteCount"
    using find_module_graph_header_checks [OF last_c [THEN conjunct1] last_c [THEN conjunct2] refl]
    by (simp add: TRAILER_def from_bytes_little_zeros)
  have d: "find_module_graph ([40] @ replicate 31 0 @ TRAILER) = Inl StartBeforeFile"
    using find_module_graph_header_checks [OF last_d [THEN conjunct1] last_d [THEN conjunct2] refl]
    by (simp add: TRAILER_def from_bytes_little_zeros)
  have e: "find_module_graph sample_binary \<noteq> Inl InvalidByteCount
      \<and> find_module_graph sample_binary \<noteq> Inl StartBeforeFile"
    by (simp add: find_sample_binary)
  from a b c d e show ?thesis
    by blast
qed


section \<open>Properties of name decoding\<close>

lemma utf8_decode_Nil: "utf8_decode mode [] = Inr []"
  by (simp add: utf8_decode.simps)

lemma utf8_decode_replace_total: "\<exists>s. utf8_decode Replace bs = Inr s"
proof (induction bs rule: length_induct)
  case (1 bs)
  show ?case
  proof (cases "bs = []")
    case True
    then show ?thesis by (simp add: utf8_decode_Nil)
  next
    case False
    then have "0 < snd (utf8_step bs)"
      by (rule utf8_step_consumes)
    with False have "length (drop (snd (utf8_step bs)) bs) < length bs"
      by simp
    with 1 obtain s where s: "utf8_decode Replace (drop (snd (utf8_step bs)) bs) = Inr s"
      by blast
    show ?thesis
    proof (cases "fst (utf8_step bs)")
      case None
      with False s have "utf8_decode Replace bs = Inr (0xFFFD # s)"
        by (subst utf8_decode.simps) (simp add: Let_def)
      then show ?thesis by blast
    next
      case (Some cp)
      with False s have "utf8_decode Replace bs = Inr (cp # s)"
        by (subst utf8_decode.simps) (simp add: Let_def)
      then show ?thesis by blast
    qed
  qed
qed

lemma utf8_decode_ascii: "\<forall>b\<in>set bs. b < 0x80 \<Longrightarrow> utf8_decode mode bs = Inr bs"
proof (induction bs)
  case Nil
  then show ?case by (simp add: utf8_decode_Nil)
next
  case (Cons b bs)
  then have "utf8_decode mode bs = Inr bs" by simp
  moreover from Cons.prems have "b < 0x80" by simp
  ultimately show ?case
    by (subst utf8_decode.simps) (simp add: Let_def)
qed



lemma decode_replace_sample2: "decode_utf8 Replace [0x41, 0xE2, 0x82, 0xAC, 0xFF, 0xF0, 0x9F] = Inr [65, 8364, 65533, 65533]"
  by (simp add: decode_utf8_def utf8_decode.simps Let_def is_continuation_def)

lemma py_index_in_range:
  "0 \<le> i \<Longrightarrow> i < int (length xs) \<Longrightarrow> py_index xs i = Inr (xs ! nat i)"
  by (simp add: py_index_def Let_def)








section \<open>Properties of the orchestrator\<close>

text \<open>A record inside its table: what the body of the loop comes to, and when it fails.\<close>

lemma from_bytes_little_nonneg: "0 \<le> from_bytes_little bs"
  by (simp add: from_bytes_little_bounds)

lemma slice_from_leaves:
  "pointer_leaves graph p \<Longrightarrow> slice_from graph p = Inl PointerOutOfRange"
  by (cases p) (simp add: pointer_leaves_def slice_from_def slice_from_reads_out_of_range)

lemma slice_from_error_kind: "slice_from graph p = Inl e \<Longrightarrow> e = PointerOutOfRange"
  by (cases p) (auto simp add: slice_from_def slice_from_reads_def Let_def split: if_splits)

lemma slice_from_stays:
  assumes "0 \<le> fst p" and "0 \<le> snd p" and "\<not> pointer_leaves graph p"
  shows "\<exists>d. slice_from graph p = Inr d"
proof (cases "slice_from graph p")
  case (Inl e)
  with assms show ?thesis
    by (cases p) (auto simp add: slice_from_def slice_from_reads_def pointer_leaves_def Let_def
        split: if_splits)
next
  case (Inr d)
  then show ?thesis by blast
qed

lemma decode_utf8_replace_total: "\<exists>s. decode_utf8 Replace bs = Inr s"
  by (simp add: decode_utf8_def utf8_decode_replace_total)

lemma field_slice:
  assumes "36 * k + p + 4 \<le> length table" and "a = int (36 * k + p)" and "b = a + 4"
  shows "py_slice table a b = take 4 (drop (36 * k + p) table)"
proof -
  have "py_slice table a b = take (nat (b - a)) (drop (nat a) table)"
    by (rule py_slice_in_range) (use assms in linarith)+
  moreover have "nat a = 36 * k + p"
    using assms(2) by (simp only: nat_int)
  moreover have "nat (b - a) = 4"
    using assms(3) by simp
  ultimately show ?thesis
    by (simp only:)
qed

lemma index_field:
  assumes "36 * k + p < length table" and "a = int (36 * k + p)"
  shows "py_index table a = Inr (table ! (36 * k + p))"
proof -
  have "py_index table a = Inr (table ! nat a)"
    by (rule py_index_in_range) (use assms in linarith)+
  moreover have "nat a = 36 * k + p"
    using assms(2) by (simp only: nat_int)
  ultimately show ?thesis
    by (simp only:)
qed

lemma iter_modules_body_covered:
  assumes cover: "36 * (k + 1) \<le> length table"
  shows "iter_modules_body graph table (int k) =
     and_then (slice_from graph
                 (from_bytes_little (take 4 (drop (36 * k) table)),
                  from_bytes_little (take 4 (drop (36 * k + 4) table)))) (\<lambda>name_bytes.
     and_then (decode_utf8 Replace name_bytes) (\<lambda>name.
     and_then (slice_from graph
                 (from_bytes_little (take 4 (drop (36 * k + 8) table)),
                  from_bytes_little (take 4 (drop (36 * k + 12) table)))) (\<lambda>contents.
       Inr (name, contents, uint (table ! (36 * k + 32)), uint (table ! (36 * k + 33)),
            uint (table ! (36 * k + 34)), uint (table ! (36 * k + 35))))))"
proof -
  have f0: "py_slice table (int k * 36) (int k * 36 + 4) = take 4 (drop (36 * k) table)"
    using cover
      field_slice [where k = k and p = 0 and table = table and a = "int k * 36" and b = "int k * 36 + 4"]
    by simp
  have f4: "py_slice table (int k * 36 + 4) (int k * 36 + 8) = take 4 (drop (36 * k + 4) table)"
    by (rule field_slice) (use cover in simp_all)
  have f8: "py_slice table (int k * 36 + 8) (int k * 36 + 12) = take 4 (drop (36 * k + 8) table)"
    by (rule field_slice) (use cover in simp_all)
  have f12: "py_slice table (int k * 36 + 12) (int k * 36 + 16) = take 4 (drop (36 * k + 12) table)"
    by (rule field_slice) (use cover in simp_all)
  have i: "py_index table (int k * 36 + 32) = Inr (table ! (36 * k + 32))"
    "py_index table (int k * 36 + 33) = Inr (table ! (36 * k + 33))"
    "py_index table (int k * 36 + 34) = Inr (table ! (36 * k + 34))"
    "py_index table (int k * 36 + 35) = Inr (table ! (36 * k + 35))"
    by (rule index_field; use cover in simp)+
  show ?thesis
    by (simp add: iter_modules_body_def MODULE_STRUCT_SIZE_def Let_def f0 f4 f8 f12 i
        and_then_def [of "Inr x" for x])
qed


lemma iter_modules_body_error_kind:
  assumes "36 * (k + 1) \<le> length table" and "iter_modules_body graph table (int k) = Inl e"
  shows "e = PointerOutOfRange"
proof -
  have "decode_utf8 Replace bs \<noteq> Inl e" for bs
    using decode_utf8_replace_total [of bs] by auto
  then show ?thesis
    using assms(2)
    unfolding iter_modules_body_covered [OF assms(1)] and_then_def
    by (auto split: sum.splits dest: slice_from_error_kind)
qed

lemma iter_modules_body_fails:
  assumes cover: "36 * (k + 1) \<le> length table"
    and leaves: "pointer_leaves graph
             (from_bytes_little (take 4 (drop (36 * k) table)),
              from_bytes_little (take 4 (drop (36 * k + 4) table)))
         \<or> pointer_leaves graph
             (from_bytes_little (take 4 (drop (36 * k + 8) table)),
              from_bytes_little (take 4 (drop (36 * k + 12) table)))"
  shows "iter_modules_body graph table (int k) = Inl PointerOutOfRange"
proof -
  let ?name = "(from_bytes_little (take 4 (drop (36 * k) table)),
              from_bytes_little (take 4 (drop (36 * k + 4) table)))"
  let ?contents = "(from_bytes_little (take 4 (drop (36 * k + 8) table)),
              from_bytes_little (take 4 (drop (36 * k + 12) table)))"
  show ?thesis
  proof (cases "pointer_leaves graph ?name")
    case True
    then have "slice_from graph ?name = Inl PointerOutOfRange"
      by (rule slice_from_leaves)
    then show ?thesis
      by (simp add: iter_modules_body_covered [OF cover] and_then_def)
  next
    case False
    with leaves have "slice_from graph ?contents = Inl PointerOutOfRange"
      by (simp add: slice_from_leaves)
    moreover obtain d where "slice_from graph ?name = Inr d"
      using slice_from_stays [of ?name graph] False by (auto simp add: from_bytes_little_nonneg)
    moreover obtain name where "decode_utf8 Replace d = Inr name"
      using decode_utf8_replace_total by blast
    ultimately show ?thesis
      by (simp add: iter_modules_body_covered [OF cover] and_then_def)
  qed
qed

lemma iter_modules_loop_fails:
  assumes "\<forall>i\<in>set idxs. \<forall>e. iter_modules_body graph table i = Inl e \<longrightarrow> e = err"
    and "\<exists>i\<in>set idxs. \<exists>e. iter_modules_body graph table i = Inl e"
  shows "\<exists>entries. iter_modules_loop graph table idxs = (entries, Some err)"
  using assms
proof (induction idxs)
  case Nil
  then show ?case by simp
next
  case (Cons i idxs)
  show ?case
  proof (cases "iter_modules_body graph table i")
    case (Inl e)
    with Cons.prems(1) have "e = err" by simp
    with Inl show ?thesis by simp
  next
    case (Inr entry)
    with Cons.prems have "\<exists>i\<in>set idxs. \<exists>e. iter_modules_body graph table i = Inl e"
      by auto
    moreover from Cons.prems(1)
    have "\<forall>i\<in>set idxs. \<forall>e. iter_modules_body graph table i = Inl e \<longrightarrow> e = err"
      by simp
    ultimately obtain entries where "iter_modules_loop graph table idxs = (entries, Some err)"
      using Cons.IH by blast
    with Inr show ?thesis by simp
  qed
qed

lemma iter_modules_in_bounds:
  assumes "(raw div 2 ^ 32) mod 2 ^ 32 \<noteq> 0" and "((raw div 2 ^ 32) mod 2 ^ 32) mod 36 = 0"
    and "raw mod 2 ^ 32 + (raw div 2 ^ 32) mod 2 ^ 32 \<le> int (length graph)"
  shows "iter_modules graph raw =
     iter_modules_loop graph
       (take (nat ((raw div 2 ^ 32) mod 2 ^ 32)) (drop (nat (raw mod 2 ^ 32)) graph))
       (map int [0 ..< nat (((raw div 2 ^ 32) mod 2 ^ 32) div 36)])"
proof -
  have "py_slice graph (raw mod 2 ^ 32) (raw mod 2 ^ 32 + (raw div 2 ^ 32) mod 2 ^ 32)
      = take (nat (raw mod 2 ^ 32 + (raw div 2 ^ 32) mod 2 ^ 32 - raw mod 2 ^ 32))
          (drop (nat (raw mod 2 ^ 32)) graph)"
    by (rule py_slice_in_range) (use assms(3) in simp_all)
  then show ?thesis
    using assms by (simp add: iter_modules_def decode_pointer_div_mod MODULE_STRUCT_SIZE_def)
qed

lemma take_drop_take:
  "n + m \<le> l \<Longrightarrow> take m (drop n (take l xs)) = take m (drop n xs)"
  by (simp add: drop_take min_def)

lemma iter_modules_pointer_failure:
  assumes multiple: "((raw div 2 ^ 32) mod 2 ^ 32) mod 36 = 0"
    and bounds: "raw mod 2 ^ 32 + (raw div 2 ^ 32) mod 2 ^ 32 \<le> int (length graph)"
    and k: "int k < ((raw div 2 ^ 32) mod 2 ^ 32) div 36"
    and leaves: "pointer_leaves graph
             (record_field graph (raw mod 2 ^ 32) k 0, record_field graph (raw mod 2 ^ 32) k 4)
         \<or> pointer_leaves graph
             (record_field graph (raw mod 2 ^ 32) k 8, record_field graph (raw mod 2 ^ 32) k 12)"
  shows "\<exists>entries. iter_modules graph raw = (entries, Some PointerOutOfRange)"
proof -
  define off where "off = raw mod 2 ^ 32"
  define len where "len = (raw div 2 ^ 32) mod 2 ^ 32"
  define table where "table = take (nat len) (drop (nat off) graph)"
  define count where "count = nat (len div 36)"
  have off0: "0 \<le> off" and len0: "0 \<le> len"
    by (simp_all add: off_def len_def)
  from k have nonzero: "len \<noteq> 0"
    by (auto simp add: len_def)
  from multiple have "len mod 36 = 0"
    by (simp add: len_def)
  then have len36: "len = 36 * (len div 36)"
    using mult_div_mod_eq [of 36 len] by simp
  have bounds': "off + len \<le> int (length graph)"
    using bounds by (simp add: off_def len_def)
  have tlen: "length table = nat len"
    unfolding table_def using bounds' off0 len0 by (simp add: min_def) linarith
  have count36: "nat len = 36 * count"
    using len36 len0 by (simp add: count_def nat_mult_distrib)
  have cover: "36 * (j + 1) \<le> length table" if "j < count" for j
    using that tlen count36 by simp
  have kcount: "k < count"
    using k by (simp add: count_def len_def)
  have field: "from_bytes_little (take 4 (drop (36 * k + p) table)) = record_field graph off k p"
    if "p + 4 \<le> 36" for p
  proof -
    have "36 * k + p + 4 \<le> nat len"
      using that cover [OF kcount] tlen by simp
    then have "take 4 (drop (36 * k + p) table) = take 4 (drop (36 * k + p) (drop (nat off) graph))"
      unfolding table_def by (intro take_drop_take) simp
    then show ?thesis
      by (simp add: record_field_def add.commute add.left_commute)
  qed
  have "iter_modules_body graph table (int k) = Inl PointerOutOfRange"
    using leaves field [of 0] field [of 4] field [of 8] field [of 12]
    by (intro iter_modules_body_fails cover kcount) (simp add: off_def)
  then have some: "\<exists>i\<in>set (map int [0 ..< count]). \<exists>e. iter_modules_body graph table i = Inl e"
    using kcount by auto
  have kind: "\<forall>i\<in>set (map int [0 ..< count]). \<forall>e.
      iter_modules_body graph table i = Inl e \<longrightarrow> e = PointerOutOfRange"
  proof (intro ballI allI impI)
    fix i e
    assume "i \<in> set (map int [0 ..< count])" and fails: "iter_modules_body graph table i = Inl e"
    then obtain j where j: "i = int j" "j < count"
      by auto
    from iter_modules_body_error_kind [OF cover [OF j(2)]] fails j(1)
    show "e = PointerOutOfRange"
      by blast
  qed
  from iter_modules_loop_fails [OF kind some] obtain entries where
    "iter_modules_loop graph table (map int [0 ..< count]) = (entries, Some PointerOutOfRange)"
    by blast
  moreover have "iter_modules graph raw = iter_modules_loop graph table (map int [0 ..< count])"
    using iter_modules_in_bounds [OF _ multiple bounds] nonzero
    by (simp add: table_def count_def off_def len_def)
  ultimately show ?thesis
    by simp
qed


text \<open>The write loop raises no \<open>ExtractionError\<close>.\<close>

lemma write_bytes_error_kind:
  "write_bytes env dest data st = (st', Some e) \<Longrightarrow> e = ValueError \<or> e = OSError"
  by (auto simp add: write_bytes_def split: if_splits write_outcome.splits)

lemma write_bundles_step:
  "\<exists>candidate dest.
     write_bundles env prettify ((name, contents) # rest) written_names st =
       (case write_bytes env dest contents st of
          (st1, Some e) \<Rightarrow> (st1, Some e)
        | (st1, None) \<Rightarrow>
            if prettify
            then
              (case prettier_run env dest contents of
                 Formatted out \<Rightarrow>
                   write_bundles env prettify rest (finsert candidate written_names)
                     (st1\<lparr>files := (files st1)(dest \<mapsto> out)\<rparr>)
               | Failed \<Rightarrow> write_bundles env prettify rest (finsert candidate written_names) st1
               | Crashed \<Rightarrow> (st1, Some OSError))
            else write_bundles env prettify rest (finsert candidate written_names) st1)"
  by (simp only: write_bundles.simps Let_def) (rule exI, rule exI, rule refl)

lemma write_bundles_error_kind:
  "write_bundles env prettify bundles written_names st = (st', Some e) \<Longrightarrow>
     e = ValueError \<or> e = OSError"
proof (induction bundles arbitrary: written_names st)
  case Nil
  then show ?case by simp
next
  case (Cons item rest)
  obtain name contents where item: "item = (name, contents)"
    by (cases item)
  from write_bundles_step [of env prettify name contents rest written_names st]
  obtain candidate dest where step:
    "write_bundles env prettify (item # rest) written_names st =
       (case write_bytes env dest contents st of
          (st1, Some e) \<Rightarrow> (st1, Some e)
        | (st1, None) \<Rightarrow>
            if prettify
            then
              (case prettier_run env dest contents of
                 Formatted out \<Rightarrow>
                   write_bundles env prettify rest (finsert candidate written_names)
                     (st1\<lparr>files := (files st1)(dest \<mapsto> out)\<rparr>)
               | Failed \<Rightarrow> write_bundles env prettify rest (finsert candidate written_names) st1
               | Crashed \<Rightarrow> (st1, Some OSError))
            else write_bundles env prettify rest (finsert candidate written_names) st1)"
    unfolding item by blast
  obtain st1 r where wb: "write_bytes env dest contents st = (st1, r)"
    by (cases "write_bytes env dest contents st")
  show ?case
  proof (cases r)
    case (Some e')
    with Cons.prems step wb have "e = e'" by simp
    with wb Some show ?thesis
      by (auto dest: write_bytes_error_kind)
  next
    case None
    show ?thesis
    proof (cases prettify)
      case False
      with None Cons.prems step wb
      have "write_bundles env prettify rest (finsert candidate written_names) st1 = (st', Some e)"
        by simp
      then show ?thesis by (rule Cons.IH)
    next
      case True
      show ?thesis
      proof (cases "prettier_run env dest contents")
        case (Formatted out)
        with True None Cons.prems step wb
        have "write_bundles env prettify rest (finsert candidate written_names)
                (st1\<lparr>files := (files st1)(dest \<mapsto> out)\<rparr>) = (st', Some e)"
          by simp
        then show ?thesis by (rule Cons.IH)
      next
        case Failed
        with True None Cons.prems step wb
        have "write_bundles env prettify rest (finsert candidate written_names) st1 = (st', Some e)"
          by simp
        then show ?thesis by (rule Cons.IH)
      next
        case Crashed
        with True None Cons.prems step wb show ?thesis
          by simp
      qed
    qed
  qed
qed

lemma extract_bundles_extraction_error:
  assumes "extract_bundles env buf prettify st = (st', Some e)" and "is_extraction_error e"
  shows "st' = st"
proof (cases "find_module_graph buf")
  case (Inl e')
  with assms(1) show ?thesis
    by (simp add: extract_bundles_def)
next
  case (Inr found)
  obtain graph raw where found: "found = (graph, raw)"
    by (cases found)
  obtain entries r where iter: "iter_modules graph raw = (entries, r)"
    by (cases "iter_modules graph raw")
  show ?thesis
  proof (cases r)
    case (Some e')
    with assms(1) Inr found iter show ?thesis
      by (simp add: extract_bundles_def)
  next
    case None
    define bundles where "bundles =
      map (\<lambda>(name, contents, encoding, loader, module_format, side). (name, contents))
        (filter (\<lambda>(name, contents, encoding, loader, module_format, side).
                    should_extract name encoding loader) entries)"
    have unfold: "extract_bundles env buf prettify st =
      (if bundles = [] then (st, Some NoEntriesFound)
       else if mkdir_refused env then (st, Some OSError)
       else write_bundles env prettify bundles {||} (st\<lparr>dir_made := True\<rparr>))"
      using Inr found iter None by (simp add: extract_bundles_def bundles_def Let_def)
    show ?thesis
    proof (cases "bundles = [] \<or> mkdir_refused env")
      case True
      with assms(1) unfold show ?thesis
        by (auto split: if_splits)
    next
      case False
      with assms(1) unfold
      have "write_bundles env prettify bundles {||} (st\<lparr>dir_made := True\<rparr>) = (st', Some e)"
        by simp
      then have "e = ValueError \<or> e = OSError"
        by (rule write_bundles_error_kind)
      with assms(2) show ?thesis
        by (auto simp add: is_extraction_error_def)
    qed
  qed
qed

text \<open>
  Claim C8. A format or bounds error aborts the extraction with no output. Whenever
  \<open>extract\<close> raises an \<open>ExtractionError\<close>, the output state is the one it started from. It
  raises the locator's error when the locator fails, \<open>TableOutOfBounds\<close> when the records
  table leaves the graph, and \<open>PointerOutOfRange\<close> when, the table being inside the graph,
  the name pointer or the contents pointer of any of its records leaves the graph (these
  are the two pointers the decoder resolves), whatever the records before it hold: the
  output state is unchanged each time, so no entry decoded before the failing record is
  written. The same holds for whatever error ends the decoder after it has yielded entries.
\<close>

theorem extract_aborts_without_output:
  "(\<forall>st' e. extract_bundles env buf prettify st = (st', Some e) \<and> is_extraction_error e \<longrightarrow>
       st' = st)
   \<and> (\<forall>e. find_module_graph buf = Inl e \<longrightarrow>
          extract_bundles env buf prettify st = (st, Some e))
   \<and> (\<forall>graph raw.
          find_module_graph buf = Inr (graph, raw)
          \<and> (raw div 2 ^ 32) mod 2 ^ 32 \<noteq> 0 \<and> ((raw div 2 ^ 32) mod 2 ^ 32) mod 36 = 0
          \<and> int (length graph) < raw mod 2 ^ 32 + (raw div 2 ^ 32) mod 2 ^ 32 \<longrightarrow>
          extract_bundles env buf prettify st = (st, Some TableOutOfBounds))
   \<and> (\<forall>graph raw k.
          find_module_graph buf = Inr (graph, raw)
          \<and> ((raw div 2 ^ 32) mod 2 ^ 32) mod 36 = 0
          \<and> raw mod 2 ^ 32 + (raw div 2 ^ 32) mod 2 ^ 32 \<le> int (length graph)
          \<and> int k < ((raw div 2 ^ 32) mod 2 ^ 32) div 36
          \<and> (pointer_leaves graph
                (record_field graph (raw mod 2 ^ 32) k 0, record_field graph (raw mod 2 ^ 32) k 4)
              \<or> pointer_leaves graph
                (record_field graph (raw mod 2 ^ 32) k 8, record_field graph (raw mod 2 ^ 32) k 12))
          \<longrightarrow> extract_bundles env buf prettify st = (st, Some PointerOutOfRange))
   \<and> (\<forall>graph raw entries e.
          find_module_graph buf = Inr (graph, raw) \<and> iter_modules graph raw = (entries, Some e) \<longrightarrow>
          extract_bundles env buf prettify st = (st, Some e))"
proof (intro conjI allI impI)
  fix st' e
  assume "extract_bundles env buf prettify st = (st', Some e) \<and> is_extraction_error e"
  then show "st' = st"
    using extract_bundles_extraction_error [of env buf prettify st st' e] by simp
next
  fix e
  assume "find_module_graph buf = Inl e"
  then show "extract_bundles env buf prettify st = (st, Some e)"
    by (simp add: extract_bundles_def)
next
  fix graph raw
  assume h: "find_module_graph buf = Inr (graph, raw)
          \<and> (raw div 2 ^ 32) mod 2 ^ 32 \<noteq> 0 \<and> ((raw div 2 ^ 32) mod 2 ^ 32) mod 36 = 0
          \<and> int (length graph) < raw mod 2 ^ 32 + (raw div 2 ^ 32) mod 2 ^ 32"
  then have "iter_modules graph raw = ([], Some TableOutOfBounds)"
    by (simp add: iter_modules_def decode_pointer_div_mod MODULE_STRUCT_SIZE_def)
  with h show "extract_bundles env buf prettify st = (st, Some TableOutOfBounds)"
    by (simp add: extract_bundles_def)
next
  fix graph raw k
  assume h: "find_module_graph buf = Inr (graph, raw)
          \<and> ((raw div 2 ^ 32) mod 2 ^ 32) mod 36 = 0
          \<and> raw mod 2 ^ 32 + (raw div 2 ^ 32) mod 2 ^ 32 \<le> int (length graph)
          \<and> int k < ((raw div 2 ^ 32) mod 2 ^ 32) div 36
          \<and> (pointer_leaves graph
                (record_field graph (raw mod 2 ^ 32) k 0, record_field graph (raw mod 2 ^ 32) k 4)
              \<or> pointer_leaves graph
                (record_field graph (raw mod 2 ^ 32) k 8, record_field graph (raw mod 2 ^ 32) k 12))"
  note found = h [THEN conjunct1]
  note multiple = h [THEN conjunct2, THEN conjunct1]
  note bounds = h [THEN conjunct2, THEN conjunct2, THEN conjunct1]
  note rec = h [THEN conjunct2, THEN conjunct2, THEN conjunct2, THEN conjunct1]
  note leaves = h [THEN conjunct2, THEN conjunct2, THEN conjunct2, THEN conjunct2]
  from iter_modules_pointer_failure [OF multiple bounds rec leaves]
  obtain entries where "iter_modules graph raw = (entries, Some PointerOutOfRange)"
    by (rule exE)
  with found show "extract_bundles env buf prettify st = (st, Some PointerOutOfRange)"
    by (simp add: extract_bundles_def)
next
  fix graph raw entries e
  assume "find_module_graph buf = Inr (graph, raw) \<and> iter_modules graph raw = (entries, Some e)"
  then show "extract_bundles env buf prettify st = (st, Some e)"
    by (simp add: extract_bundles_def)
qed


lemma rfind_corrupt_name_binary: "rfind corrupt_name_binary TRAILER = int 124"
  by (simp add: sample_defs more_sample_defs rfind_def numeral_eq_Suc)

lemma find_corrupt_name_binary:
  "find_module_graph corrupt_name_binary =
     Inr (sample_strings @ sample_record @ corrupt_name_record, 0x0000004800000014)"
  by (subst find_module_graph_at [OF rfind_corrupt_name_binary])
     (simp add: sample_defs more_sample_defs)

lemma rfind_overrun_binary: "rfind overrun_binary TRAILER = int 88"
  by (simp add: sample_defs more_sample_defs rfind_def numeral_eq_Suc)

lemma find_overrun_binary:
  "find_module_graph overrun_binary = Inr (sample_strings @ sample_record, 0x0000004800000014)"
  by (subst find_module_graph_at [OF rfind_overrun_binary])
     (simp add: sample_defs more_sample_defs)

lemma find_large_count:
  "find_module_graph ([200] @ replicate 31 0 @ TRAILER) = Inl InvalidByteCount"
  by (subst find_module_graph_at [OF rfind_large_count])
     (simp add: TRAILER_def from_bytes_little_zeros)

lemma corrupt_contents_pointer:
  "pointer_leaves (sample_strings @ sample_record @ corrupt_record)
     (record_field (sample_strings @ sample_record @ corrupt_record) 20 1 8,
      record_field (sample_strings @ sample_record @ corrupt_record) 20 1 12)"
  by (simp add: pointer_leaves_def record_field_def sample_defs)

lemma corrupt_name_pointer:
  "pointer_leaves (sample_strings @ sample_record @ corrupt_name_record)
     (record_field (sample_strings @ sample_record @ corrupt_name_record) 20 1 0,
      record_field (sample_strings @ sample_record @ corrupt_name_record) 20 1 4)"
  by (simp add: pointer_leaves_def record_field_def sample_defs more_sample_defs)

lemma corrupt_table:
  "py_slice (sample_strings @ sample_record @ corrupt_record) 20 92 = sample_record @ corrupt_record"
  by (simp add: py_slice_def sample_defs)

lemma decode_app_js: "decode_utf8 Replace [0x61, 0x70, 0x70, 0x2E, 0x6A, 0x73] = Inr (str_lit ''app.js'')"
  by (simp add: decode_utf8_def utf8_decode_ascii str_lit_def)

lemma corrupt_first_record:
  "iter_modules_body (sample_strings @ sample_record @ corrupt_record)
     (sample_record @ corrupt_record) 0 =
   Inr (str_lit ''app.js'', [0x63, 0x6F, 0x6E, 0x73, 0x6F, 0x6C, 0x65, 0x2E, 0x6C, 0x6F, 0x67, 0x28, 0x31, 0x29], 1, 1, 0, 0)"
  by (simp add: iter_modules_body_def MODULE_STRUCT_SIZE_def and_then_def sample_defs py_slice_def
      py_index_def slice_from_def slice_from_reads_def endswith_def decode_app_js)

lemma corrupt_second_record:
  "iter_modules_body (sample_strings @ sample_record @ corrupt_record)
     (sample_record @ corrupt_record) 1 = Inl PointerOutOfRange"
  by (simp add: iter_modules_body_def MODULE_STRUCT_SIZE_def and_then_def sample_defs py_slice_def
      py_index_def slice_from_def slice_from_reads_def endswith_def decode_app_js)

lemma iter_corrupt:
  "iter_modules (sample_strings @ sample_record @ corrupt_record) 0x0000004800000014 =
     ([(str_lit ''app.js'', [0x63, 0x6F, 0x6E, 0x73, 0x6F, 0x6C, 0x65, 0x2E, 0x6C, 0x6F, 0x67, 0x28, 0x31, 0x29], 1, 1, 0, 0)],
      Some PointerOutOfRange)"
proof -
  have ptr: "decode_pointer 0x0000004800000014 = (20, 72)"
    by (simp add: decode_pointer_div_mod)
  have len: "length sample_strings = 20" "length sample_record = 36" "length corrupt_record = 36"
    by (simp_all add: sample_defs)
  have idxs: "map int [0 ..< 2] = [0, 1]"
    by (simp add: upt_rec)
  show ?thesis
    by (simp add: iter_modules_def ptr len MODULE_STRUCT_SIZE_def corrupt_table idxs
        corrupt_first_record corrupt_second_record)
qed


theorem extract_aborts_without_output_witness:
  "extract_bundles plain_platform corrupt_binary False \<lparr>dir_made = False, files = Map.empty\<rparr>
     = (\<lparr>dir_made = False, files = Map.empty\<rparr>, Some PointerOutOfRange)
   \<and> extract_bundles plain_platform corrupt_name_binary False \<lparr>dir_made = False, files = Map.empty\<rparr>
     = (\<lparr>dir_made = False, files = Map.empty\<rparr>, Some PointerOutOfRange)
   \<and> extract_bundles plain_platform overrun_binary False \<lparr>dir_made = False, files = Map.empty\<rparr>
     = (\<lparr>dir_made = False, files = Map.empty\<rparr>, Some TableOutOfBounds)
   \<and> extract_bundles plain_platform ([200] @ replicate 31 0 @ TRAILER) False
       \<lparr>dir_made = False, files = Map.empty\<rparr>
     = (\<lparr>dir_made = False, files = Map.empty\<rparr>, Some InvalidByteCount)
   \<and> is_extraction_error PointerOutOfRange
   \<and> iter_modules (sample_strings @ sample_record @ corrupt_record) 0x0000004800000014 =
       ([(str_lit ''app.js'',
          [0x63, 0x6F, 0x6E, 0x73, 0x6F, 0x6C, 0x65, 0x2E, 0x6C, 0x6F, 0x67, 0x28, 0x31, 0x29],
          1, 1, 0, 0)],
        Some PointerOutOfRange)
   \<and> should_extract (str_lit ''app.js'') 1 1"
proof -
  let ?st = "\<lparr>dir_made = False, files = Map.empty\<rparr>"
  note contents = extract_aborts_without_output [of plain_platform corrupt_binary False ?st,
      THEN conjunct2, THEN conjunct2, THEN conjunct2, THEN conjunct1, rule_format,
      where graph = "sample_strings @ sample_record @ corrupt_record"
        and raw = "0x0000004800000014" and k = 1]
  note name = extract_aborts_without_output [of plain_platform corrupt_name_binary False ?st,
      THEN conjunct2, THEN conjunct2, THEN conjunct2, THEN conjunct1, rule_format,
      where graph = "sample_strings @ sample_record @ corrupt_name_record"
        and raw = "0x0000004800000014" and k = 1]
  note overrun = extract_aborts_without_output [of plain_platform overrun_binary False ?st,
      THEN conjunct2, THEN conjunct2, THEN conjunct1, rule_format,
      where graph = "sample_strings @ sample_record" and raw = "0x0000004800000014"]
  note locator = extract_aborts_without_output
      [of plain_platform "[200] @ replicate 31 0 @ TRAILER" False ?st,
       THEN conjunct2, THEN conjunct1, rule_format]
  have len: "length sample_strings = 20" "length sample_record = 36" "length corrupt_record = 36"
    "length corrupt_name_record = 36"
    by (simp_all add: sample_defs more_sample_defs)
  have a: "extract_bundles plain_platform corrupt_binary False ?st = (?st, Some PointerOutOfRange)"
    using corrupt_contents_pointer
    by (intro contents) (simp add: find_corrupt_binary len)
  have b: "extract_bundles plain_platform corrupt_name_binary False ?st
      = (?st, Some PointerOutOfRange)"
    using corrupt_name_pointer
    by (intro name) (simp add: find_corrupt_name_binary len)
  have c: "extract_bundles plain_platform overrun_binary False ?st = (?st, Some TableOutOfBounds)"
    by (intro overrun) (simp add: find_overrun_binary len)
  have d: "extract_bundles plain_platform ([200] @ replicate 31 0 @ TRAILER) False ?st
      = (?st, Some InvalidByteCount)"
    by (intro locator) (rule find_large_count)
  have e: "is_extraction_error PointerOutOfRange"
    by (simp add: is_extraction_error_def)
  have f: "should_extract (str_lit ''app.js'') 1 1"
    by (simp add: should_extract_def)
  from a b c d e iter_corrupt f show ?thesis
    by (intro conjI)
qed

text \<open>The end-to-end scenario: one record, \<open>app.js\<close> with \<open>console.log(1)\<close>.\<close>

lemma sample_table:
  "py_slice (sample_strings @ sample_record) 20 56 = sample_record"
  by (simp add: py_slice_def sample_defs)

lemma sample_only_record:
  "iter_modules_body (sample_strings @ sample_record) sample_record 0 =
   Inr (str_lit ''app.js'', [0x63, 0x6F, 0x6E, 0x73, 0x6F, 0x6C, 0x65, 0x2E, 0x6C, 0x6F, 0x67, 0x28, 0x31, 0x29], 1, 1, 0, 0)"
  by (simp add: iter_modules_body_def MODULE_STRUCT_SIZE_def and_then_def sample_defs py_slice_def
      py_index_def slice_from_def slice_from_reads_def endswith_def decode_app_js)

lemma iter_sample:
  "iter_modules (sample_strings @ sample_record) 0x0000002400000014 =
     ([(str_lit ''app.js'', [0x63, 0x6F, 0x6E, 0x73, 0x6F, 0x6C, 0x65, 0x2E, 0x6C, 0x6F, 0x67, 0x28, 0x31, 0x29], 1, 1, 0, 0)],
      None)"
proof -
  have ptr: "decode_pointer 0x0000002400000014 = (20, 36)"
    by (simp add: decode_pointer_div_mod)
  have len: "length sample_strings = 20" "length sample_record = 36"
    by (simp_all add: sample_defs)
  show ?thesis
    by (simp add: iter_modules_def ptr len MODULE_STRUCT_SIZE_def sample_table
        sample_only_record)
qed


lemma extract_sample_binary:
  "extract_bundles plain_platform sample_binary False \<lparr>dir_made = False, files = Map.empty\<rparr>
     = (\<lparr>dir_made = True,
         files = [str_lit ''app.js.js'' \<mapsto>
                    [0x63, 0x6F, 0x6E, 0x73, 0x6F, 0x6C, 0x65, 0x2E, 0x6C, 0x6F, 0x67, 0x28, 0x31, 0x29]]\<rparr>,
        None)"
proof -
  have eligible: "should_extract (str_lit ''app.js'') 1 1"
    by (simp add: should_extract_def)
  have base: "str_replace
       (str_replace (str_strip (str_replace (str_lit ''app.js'') (str_lit ''/$bunfs/root/'') [])
                        (str_lit ''/'')) (str_lit ''/'') (str_lit ''_''))
       (str_lit ''/'') (str_lit ''_'') = str_lit ''app.js''"
    by (simp add: str_replace_def str_strip_def str_lit_def)
  have free: "pick_candidate (str_lit ''app.js'') {||} (str_lit ''app.js'') (Suc 0) = str_lit ''app.js''"
    by (simp add: pick_candidate.simps)
  have nonempty: "str_lit ''app.js'' \<noteq> []"
    by (simp add: str_lit_def)
  have dest: "str_lit ''app.js'' @ str_lit ''.js'' = str_lit ''app.js.js''"
    by (simp add: str_lit_def)
  have no_nul: "0 \<notin> set (str_lit ''app.js'')" "0 \<notin> set (str_lit ''.js'')"
    by (simp_all add: str_lit_def)
  show ?thesis
    by (simp add: extract_bundles_def find_sample_binary iter_sample eligible plain_platform_def
        base free nonempty dest no_nul write_bytes_def Let_def)
qed

text \<open>
  A name with a NUL character inside: the first file is written, then
  \<open>dest.write_bytes\<close> raises \<open>ValueError\<close> for the second.
\<close>

lemma rfind_nul_binary: "rfind nul_binary TRAILER = int 114"
  by (simp add: more_sample_defs TRAILER_def rfind_def numeral_eq_Suc)

lemma find_nul_binary:
  "find_module_graph nul_binary = Inr (nul_strings @ nul_records, 0x000000480000000A)"
  by (subst find_module_graph_at [OF rfind_nul_binary])
     (simp add: more_sample_defs TRAILER_def)

lemma nul_table: "py_slice (nul_strings @ nul_records) 10 82 = nul_records"
  by (simp add: py_slice_def more_sample_defs)

lemma nul_first_record:
  "iter_modules_body (nul_strings @ nul_records) nul_records 0 =
     Inr (str_lit ''ok.js'', [0x31, 0x3B], 1, 1, 0, 0)"
proof -
  have name: "decode_utf8 Replace [0x6F, 0x6B, 0x2E, 0x6A, 0x73] = Inr (str_lit ''ok.js'')"
    by (simp add: decode_utf8_def utf8_decode_ascii str_lit_def)
  show ?thesis
    by (simp add: iter_modules_body_def MODULE_STRUCT_SIZE_def and_then_def more_sample_defs
        py_slice_def py_index_def slice_from_def slice_from_reads_def endswith_def name)
qed

lemma nul_second_record:
  "iter_modules_body (nul_strings @ nul_records) nul_records 1 =
     Inr ([0x61, 0x00], [0x31, 0x3B], 1, 1, 0, 0)"
proof -
  have name: "decode_utf8 Replace [0x61, 0x00] = Inr [0x61, 0x00]"
    by (simp add: decode_utf8_def utf8_decode_ascii)
  show ?thesis
    by (simp add: iter_modules_body_def MODULE_STRUCT_SIZE_def and_then_def more_sample_defs
        py_slice_def py_index_def slice_from_def slice_from_reads_def endswith_def name)
qed

lemma iter_nul:
  "iter_modules (nul_strings @ nul_records) 0x000000480000000A =
     ([(str_lit ''ok.js'', [0x31, 0x3B], 1, 1, 0, 0), ([0x61, 0x00], [0x31, 0x3B], 1, 1, 0, 0)],
      None)"
proof -
  have ptr: "decode_pointer 0x000000480000000A = (10, 72)"
    by (simp add: decode_pointer_div_mod)
  have len: "length nul_strings = 10" "length nul_records = 72"
    by (simp_all add: more_sample_defs)
  have idxs: "map int [0 ..< 2] = [0, 1]"
    by (simp add: upt_rec)
  show ?thesis
    by (simp add: iter_modules_def ptr len MODULE_STRUCT_SIZE_def nul_table idxs
        nul_first_record nul_second_record)
qed

lemma extract_nul_binary:
  "extract_bundles plain_platform nul_binary False \<lparr>dir_made = False, files = Map.empty\<rparr>
     = (\<lparr>dir_made = True, files = [str_lit ''ok.js.js'' \<mapsto> [0x31, 0x3B]]\<rparr>,
        Some ValueError)"
proof -
  have eligible: "should_extract (str_lit ''ok.js'') 1 1" "should_extract [0x61, 0x00] 1 1"
    by (simp_all add: should_extract_def)
  have base1: "str_replace
       (str_replace (str_strip (str_replace (str_lit ''ok.js'') (str_lit ''/$bunfs/root/'') [])
                        (str_lit ''/'')) (str_lit ''/'') (str_lit ''_''))
       (str_lit ''/'') (str_lit ''_'') = str_lit ''ok.js''"
    by (simp add: str_replace_def str_strip_def str_lit_def)
  have base2: "str_replace
       (str_replace (str_strip (str_replace [0x61, 0x00] (str_lit ''/$bunfs/root/'') [])
                        (str_lit ''/'')) (str_lit ''/'') (str_lit ''_''))
       (str_lit ''/'') (str_lit ''_'') = [0x61, 0x00]"
    by (simp add: str_replace_def str_strip_def str_lit_def)
  have free1: "pick_candidate (str_lit ''ok.js'') {||} (str_lit ''ok.js'') (Suc 0) = str_lit ''ok.js''"
    by (simp add: pick_candidate.simps)
  have free2: "pick_candidate [0x61, 0x00] {|str_lit ''ok.js''|} [0x61, 0x00] (Suc 0) = [0x61, 0x00]"
    by (simp add: pick_candidate.simps str_lit_def)
  have nonempty: "str_lit ''ok.js'' \<noteq> []"
    by (simp add: str_lit_def)
  have dest: "str_lit ''ok.js'' @ str_lit ''.js'' = str_lit ''ok.js.js''"
    by (simp add: str_lit_def)
  have no_nul: "0 \<notin> set (str_lit ''ok.js'')" "0 \<notin> set (str_lit ''.js'')"
    by (simp_all add: str_lit_def)
  show ?thesis
    by (simp add: extract_bundles_def find_nul_binary iter_nul eligible plain_platform_def
        base1 base2 free1 free2 nonempty dest no_nul write_bytes_def Let_def)
qed


end
